theory Spec2Isabelle
  imports Complex_Main
begin

section \<open>Conventions of the embedding\<close>

text \<open>
  The Python sources are embedded shallowly.  A method that mutates \<^verbatim>\<open>self\<close> takes the
  object and returns the updated object.  A call that may raise returns a \<open>result\<close>:
  \<open>Returned v\<close> when the Python call returns \<open>v\<close>, \<open>Raised x\<close> when it leaves by raising
  \<open>x\<close>.  Python integers are \<open>int\<close>.  Readings of \<^verbatim>\<open>time.time()\<close> and
  \<^verbatim>\<open>datetime.now()\<close>, and measured latencies, are Python floats; they are taken as
  parameters of the function that reads them and are modelled as exact numbers of type
  \<open>real\<close>, so rounding of float arithmetic is not represented.
\<close>

datatype ('x, 'r) result = Returned 'r | Raised 'x

section \<open>\<^verbatim>\<open>services/service_instance.py\<close>\<close>

datatype HealthStatus = HEALTHY | UNHEALTHY | DEGRADED | UNKNOWN

record ServiceInstance =
  name :: string
  url :: string
  weight :: int
  health_status :: HealthStatus
  last_health_check :: "real option"
  consecutive_failures :: int
  active_connections :: int
  total_requests :: int
  successful_requests :: int
  failed_requests :: int
  total_response_time :: real
  created_at :: real
  last_request_at :: "real option"

text \<open>\<^verbatim>\<open>ServiceInstance.__init__(name, url, weight)\<close>; \<open>now\<close> is the reading of
  \<^verbatim>\<open>datetime.now()\<close>.\<close>

definition new_instance :: "string \<Rightarrow> string \<Rightarrow> int \<Rightarrow> real \<Rightarrow> ServiceInstance" where
  "new_instance n u w now =
     \<lparr> name = n, url = u, weight = w,
       health_status = UNKNOWN, last_health_check = None, consecutive_failures = 0,
       active_connections = 0,
       total_requests = 0, successful_requests = 0, failed_requests = 0,
       total_response_time = 0,
       created_at = now, last_request_at = None \<rparr>"

definition mark_healthy :: "real \<Rightarrow> ServiceInstance \<Rightarrow> ServiceInstance" where
  "mark_healthy now i =
     i\<lparr> health_status := HEALTHY, consecutive_failures := 0, last_health_check := Some now \<rparr>"

definition mark_unhealthy :: "real \<Rightarrow> ServiceInstance \<Rightarrow> ServiceInstance" where
  "mark_unhealthy now i =
     i\<lparr> health_status := UNHEALTHY,
        consecutive_failures := consecutive_failures i + 1,
        last_health_check := Some now \<rparr>"

definition mark_degraded :: "real \<Rightarrow> ServiceInstance \<Rightarrow> ServiceInstance" where
  "mark_degraded now i = i\<lparr> health_status := DEGRADED, last_health_check := Some now \<rparr>"

definition is_healthy :: "ServiceInstance \<Rightarrow> bool" where
  "is_healthy i = (health_status i = HEALTHY)"

definition increment_connections :: "ServiceInstance \<Rightarrow> ServiceInstance" where
  "increment_connections i = i\<lparr> active_connections := active_connections i + 1 \<rparr>"

definition decrement_connections :: "ServiceInstance \<Rightarrow> ServiceInstance" where
  "decrement_connections i = i\<lparr> active_connections := max 0 (active_connections i - 1) \<rparr>"

text \<open>\<^verbatim>\<open>record_request(success, response_time)\<close>; \<open>now\<close> is the reading of
  \<^verbatim>\<open>datetime.now()\<close>.\<close>

definition record_request :: "bool \<Rightarrow> real \<Rightarrow> real \<Rightarrow> ServiceInstance \<Rightarrow> ServiceInstance" where
  "record_request success response_time now i =
     (let i1 = i\<lparr> total_requests := total_requests i + 1, last_request_at := Some now \<rparr>;
          i2 = (if success then i1\<lparr> successful_requests := successful_requests i1 + 1 \<rparr>
                else i1\<lparr> failed_requests := failed_requests i1 + 1 \<rparr>)
      in i2\<lparr> total_response_time := total_response_time i2 + response_time \<rparr>)"

definition get_average_response_time :: "ServiceInstance \<Rightarrow> real" where
  "get_average_response_time i =
     (if total_requests i = 0 then 0 else total_response_time i / real_of_int (total_requests i))"

section \<open>\<^verbatim>\<open>health/health_checker.py\<close>\<close>

text \<open>
  What \<^verbatim>\<open>requests.get(health_url, timeout=self.timeout)\<close> does is the one input of
  \<^verbatim>\<open>check_instance_health\<close> that the method does not control: it returns a response
  with a status code, raises \<^verbatim>\<open>requests.exceptions.Timeout\<close>, raises another
  \<^verbatim>\<open>RequestException\<close>, or raises an exception that no handler of the method catches.
\<close>

datatype probe =
    Response int
  | Timeout
  | RequestException string
  | OtherException string

text \<open>The records the method sends to the logger, in the order it sends them.\<close>

datatype health_log =
    Debug_healthy string
  | Warning_status string int
  | Warning_timeout string
  | Warning_failed string string
  | Error_marked_unhealthy string int

text \<open>The \<^verbatim>\<open>try\<close> statement of \<^verbatim>\<open>check_instance_health\<close> (the probe step).
  An exception that is not a \<^verbatim>\<open>RequestException\<close> leaves the method at once.\<close>

definition probe_step ::
  "probe \<Rightarrow> real \<Rightarrow> ServiceInstance \<Rightarrow> (string, ServiceInstance \<times> health_log list) result" where
  "probe_step p now i =
     (case p of
        Response status_code \<Rightarrow>
          (if status_code = 200 then Returned (mark_healthy now i, [Debug_healthy (name i)])
           else Returned (mark_unhealthy now i, [Warning_status (name i) status_code]))
      | Timeout \<Rightarrow> Returned (mark_unhealthy now i, [Warning_timeout (name i)])
      | RequestException e \<Rightarrow> Returned (mark_unhealthy now i, [Warning_failed (name i) e])
      | OtherException e \<Rightarrow> Raised e)"

text \<open>The statement after the \<^verbatim>\<open>try\<close>: the threshold check.  \<open>now2\<close> is the clock
  reading of the second \<^verbatim>\<open>mark_unhealthy\<close>.\<close>

definition threshold_step ::
  "int \<Rightarrow> real \<Rightarrow> ServiceInstance \<times> health_log list \<Rightarrow> ServiceInstance \<times> health_log list" where
  "threshold_step unhealthy_threshold now2 st =
     (case st of (i, logs) \<Rightarrow>
        if consecutive_failures i \<ge> unhealthy_threshold then
          (if health_status i \<noteq> UNHEALTHY then
             (let i' = mark_unhealthy now2 i
              in (i', logs @ [Error_marked_unhealthy (name i') (consecutive_failures i')]))
           else (i, logs))
        else (i, logs))"

definition check_instance_health ::
  "int \<Rightarrow> probe \<Rightarrow> real \<Rightarrow> real \<Rightarrow> ServiceInstance
     \<Rightarrow> (string, ServiceInstance \<times> health_log list) result" where
  "check_instance_health unhealthy_threshold p now now2 i =
     (case probe_step p now i of
        Raised e \<Rightarrow> Raised e
      | Returned st \<Rightarrow> Returned (threshold_step unhealthy_threshold now2 st))"

fun is_escalation :: "health_log \<Rightarrow> bool" where
  "is_escalation (Error_marked_unhealthy _ _) = True"
| "is_escalation _ = False"

section \<open>\<^verbatim>\<open>circuit_breaker/breaker.py\<close>\<close>

datatype CircuitState = CLOSED | OPEN | HALF_OPEN

record CircuitBreaker =
  failure_threshold :: int
  timeout :: real
  half_open_max_calls :: int
  state :: CircuitState
  failure_count :: int
  success_count :: int
  last_failure_time :: "real option"
  half_open_calls :: int

text \<open>\<^verbatim>\<open>CircuitBreaker.__init__(failure_threshold, timeout, half_open_max_calls)\<close>\<close>

definition new_breaker :: "int \<Rightarrow> real \<Rightarrow> int \<Rightarrow> CircuitBreaker" where
  "new_breaker ft tmo homc =
     \<lparr> failure_threshold = ft, timeout = tmo, half_open_max_calls = homc,
       state = CLOSED, failure_count = 0, success_count = 0,
       last_failure_time = None, half_open_calls = 0 \<rparr>"

text \<open>
  What \<^verbatim>\<open>call\<close> raises: either one of its own two rejections, which the source builds
  as \<^verbatim>\<open>Exception(message)\<close>, or the exception \<open>x\<close> of the wrapped function, re-raised
  by the bare \<^verbatim>\<open>raise\<close> of the handler.
\<close>

datatype 'x exn = Exception string | Propagated 'x

definition should_attempt_reset :: "real \<Rightarrow> CircuitBreaker \<Rightarrow> bool" where
  "should_attempt_reset now b =
     (case last_failure_time b of
        None \<Rightarrow> True
      | Some t \<Rightarrow> now - t \<ge> timeout b)"

definition transition_to_closed :: "CircuitBreaker \<Rightarrow> CircuitBreaker" where
  "transition_to_closed b =
     b\<lparr> state := CLOSED, failure_count := 0, success_count := 0, half_open_calls := 0 \<rparr>"

definition transition_to_open :: "CircuitBreaker \<Rightarrow> CircuitBreaker" where
  "transition_to_open b = b\<lparr> state := OPEN, success_count := 0, half_open_calls := 0 \<rparr>"

definition transition_to_half_open :: "CircuitBreaker \<Rightarrow> CircuitBreaker" where
  "transition_to_half_open b =
     b\<lparr> state := HALF_OPEN, failure_count := 0, success_count := 0, half_open_calls := 0 \<rparr>"

definition on_success :: "CircuitBreaker \<Rightarrow> CircuitBreaker" where
  "on_success b =
     (let b1 = b\<lparr> success_count := success_count b + 1 \<rparr>
      in if state b1 = HALF_OPEN then
           (if success_count b1 \<ge> half_open_max_calls b1 then transition_to_closed b1 else b1)
         else b1)"

text \<open>\<open>now\<close> is the reading of \<^verbatim>\<open>time.time()\<close> in \<^verbatim>\<open>_on_failure\<close>.\<close>

definition on_failure :: "real \<Rightarrow> CircuitBreaker \<Rightarrow> CircuitBreaker" where
  "on_failure now b =
     (let b1 = b\<lparr> failure_count := failure_count b + 1, last_failure_time := Some now \<rparr>
      in if state b1 = HALF_OPEN then transition_to_open b1
         else if state b1 = CLOSED then
           (if failure_count b1 \<ge> failure_threshold b1 then transition_to_open b1 else b1)
         else b1)"

text \<open>
  \<^verbatim>\<open>CircuitBreaker.call(func)\<close>.  The wrapped function acts on its own environment
  \<open>'e\<close> (everything it can read or change; the breaker is not part of it) and either
  returns a value or raises an \<^verbatim>\<open>Exception\<close>; on the paths that do not invoke
  \<open>func\<close> the environment is handed back as it came.  \<open>now\<close> is the clock
  reading of \<^verbatim>\<open>_should_attempt_reset\<close>, \<open>now2\<close> the one of \<^verbatim>\<open>_on_failure\<close>.
  A rejection leaves by \<^verbatim>\<open>raise\<close>, after the transition to \<open>HALF_OPEN\<close> when that came
  first.
\<close>

definition call ::
  "CircuitBreaker \<Rightarrow> real \<Rightarrow> real \<Rightarrow> ('e \<Rightarrow> ('x, 'r) result \<times> 'e) \<Rightarrow> 'e
     \<Rightarrow> ('x exn, 'r) result \<times> CircuitBreaker \<times> 'e" where
  "call b now now2 func env =
     (if state b = OPEN \<and> \<not> should_attempt_reset now b then
        (Raised (Exception ''Circuit breaker is OPEN. Service unavailable.''), b, env)
      else
        (let b1 = (if state b = OPEN then transition_to_half_open b else b)
         in if state b1 = HALF_OPEN \<and> half_open_calls b1 \<ge> half_open_max_calls b1 then
              (Raised (Exception ''Circuit breaker HALF_OPEN call limit reached''), b1, env)
            else
              (let b2 = (if state b1 = HALF_OPEN
                         then b1\<lparr> half_open_calls := half_open_calls b1 + 1 \<rparr> else b1)
               in case func env of
                    (Returned r, env') \<Rightarrow> (Returned r, on_success b2, env')
                  | (Raised x, env') \<Rightarrow> (Raised (Propagated x), on_failure now2 b2, env'))))"

definition reset :: "CircuitBreaker \<Rightarrow> CircuitBreaker" where
  "reset b = transition_to_closed b"

text \<open>
  A caller that makes one call after the other and carries on after an exception, as the
  loops of \<^verbatim>\<open>tests.py\<close> and \<^verbatim>\<open>main.py\<close> do
  (\<^verbatim>\<open>try: breaker.call(f) except: pass\<close>).  Each call comes with its two clock readings.
\<close>

fun calls ::
  "CircuitBreaker \<Rightarrow> (real \<times> real \<times> ('e \<Rightarrow> ('x, 'r) result \<times> 'e)) list \<Rightarrow> 'e
     \<Rightarrow> ('x exn, 'r) result list \<times> CircuitBreaker \<times> 'e" where
  "calls b [] env = ([], b, env)"
| "calls b ((now, now2, func) # cs) env =
     (case call b now now2 func env of
        (out, b', env') \<Rightarrow>
          (case calls b' cs env' of (outs, b'', env'') \<Rightarrow> (out # outs, b'', env'')))"

text \<open>The wrapped function fails (raises) wherever it is run; it succeeds wherever it is run.\<close>

definition failing :: "('e \<Rightarrow> ('x, 'r) result \<times> 'e) \<Rightarrow> bool" where
  "failing func = (\<forall>env. \<exists>x env'. func env = (Raised x, env'))"

definition succeeding :: "('e \<Rightarrow> ('x, 'r) result \<times> 'e) \<Rightarrow> bool" where
  "succeeding func = (\<forall>env. \<exists>r env'. func env = (Returned r, env'))"

fun is_raised :: "('x, 'r) result \<Rightarrow> bool" where
  "is_raised (Raised _) = True"
| "is_raised (Returned _) = False"

fun is_failure :: "('x exn, 'r) result \<Rightarrow> bool" where
  "is_failure (Raised (Propagated _)) = True"
| "is_failure _ = False"

section \<open>\<^verbatim>\<open>load_balancer/algorithms.py\<close>\<close>

text \<open>
  The algorithms see instances only as list elements that they compare (Python compares
  \<^verbatim>\<open>ServiceInstance\<close> objects by identity) and whose fields they read; the type \<open>'a\<close> of
  instance handles is left open, and the fields read come as functions of the handle.
  \<^verbatim>\<open>current_index\<close> starts at 0 and is only ever incremented, so it is a natural number.
  The lock of the two round-robin classes makes the body of \<^verbatim>\<open>select_instance\<close> one
  atomic step, which is how it is modelled.
\<close>

record LoadBalancingAlgorithm =
  current_index :: nat

record 'a WeightedRoundRobinAlgorithm = LoadBalancingAlgorithm +
  weighted_instances :: "'a list"
  last_instances :: "'a list option"

definition new_RoundRobinAlgorithm :: LoadBalancingAlgorithm where
  "new_RoundRobinAlgorithm = \<lparr> current_index = 0 \<rparr>"

definition new_WeightedRoundRobinAlgorithm :: "'a WeightedRoundRobinAlgorithm" where
  "new_WeightedRoundRobinAlgorithm =
     \<lparr> current_index = 0, weighted_instances = [], last_instances = None \<rparr>"

definition RoundRobin_select_instance ::
  "'a list \<Rightarrow> LoadBalancingAlgorithm \<Rightarrow> 'a option \<times> LoadBalancingAlgorithm" where
  "RoundRobin_select_instance instances alg =
     (if instances = [] then (None, alg)
      else (Some (instances ! (current_index alg mod length instances)),
            alg\<lparr> current_index := current_index alg + 1 \<rparr>))"

text \<open>\<^verbatim>\<open>range(instance.weight)\<close> is empty for a weight below 1.\<close>

definition build_weighted_list :: "('a \<Rightarrow> int) \<Rightarrow> 'a list \<Rightarrow> 'a list" where
  "build_weighted_list weight_of instances =
     concat (map (\<lambda>i. replicate (nat (weight_of i)) i) instances)"

definition WeightedRoundRobin_select_instance ::
  "('a \<Rightarrow> int) \<Rightarrow> 'a list \<Rightarrow> 'a WeightedRoundRobinAlgorithm
     \<Rightarrow> 'a option \<times> 'a WeightedRoundRobinAlgorithm" where
  "WeightedRoundRobin_select_instance weight_of instances alg =
     (case instances of
        [] \<Rightarrow> (None, alg)
      | first # _ \<Rightarrow>
         (let alg1 = (if Some instances \<noteq> last_instances alg
                      then alg\<lparr> weighted_instances := build_weighted_list weight_of instances,
                                last_instances := Some instances \<rparr>
                      else alg)
          in if weighted_instances alg1 = [] then (Some first, alg1)
             else (Some (weighted_instances alg1
                           ! (current_index alg1 mod length (weighted_instances alg1))),
                   alg1\<lparr> current_index := current_index alg1 + 1 \<rparr>)))"

text \<open>Python's \<^verbatim>\<open>min(instances, key=f)\<close>: the first element with the least key.\<close>

fun min_by :: "('a \<Rightarrow> 'k::linorder) \<Rightarrow> 'a \<Rightarrow> 'a list \<Rightarrow> 'a" where
  "min_by f best [] = best"
| "min_by f best (x # xs) = min_by f (if f x < f best then x else best) xs"

definition LeastConnections_select_instance :: "('a \<Rightarrow> int) \<Rightarrow> 'a list \<Rightarrow> 'a option" where
  "LeastConnections_select_instance connections_of instances =
     (case instances of [] \<Rightarrow> None | x # xs \<Rightarrow> Some (min_by connections_of x xs))"

definition LeastResponseTime_select_instance :: "('a \<Rightarrow> real) \<Rightarrow> 'a list \<Rightarrow> 'a option" where
  "LeastResponseTime_select_instance average_of instances =
     (case instances of [] \<Rightarrow> None | x # xs \<Rightarrow> Some (min_by average_of x xs))"

text \<open>\<^verbatim>\<open>random.choice(instances)\<close>; \<open>draw\<close> is the index the generator draws.\<close>

definition Random_select_instance :: "nat \<Rightarrow> 'a list \<Rightarrow> 'a option" where
  "Random_select_instance draw instances =
     (if instances = [] then None else Some (instances ! (draw mod length instances)))"

text \<open>The algorithm object a balancer holds; \<^verbatim>\<open>select_instance\<close> dispatches on its class.\<close>

datatype 'a algorithm =
    RoundRobin LoadBalancingAlgorithm
  | Weighted "'a WeightedRoundRobinAlgorithm"
  | LeastConnections
  | Random
  | LeastResponseTime

definition select_instance ::
  "('a \<Rightarrow> ServiceInstance) \<Rightarrow> nat \<Rightarrow> 'a list \<Rightarrow> 'a algorithm \<Rightarrow> 'a option \<times> 'a algorithm" where
  "select_instance deref draw instances alg =
     (case alg of
        RoundRobin a \<Rightarrow>
          (case RoundRobin_select_instance instances a of (sel, a') \<Rightarrow> (sel, RoundRobin a'))
      | Weighted a \<Rightarrow>
          (case WeightedRoundRobin_select_instance (\<lambda>i. weight (deref i)) instances a of
             (sel, a') \<Rightarrow> (sel, Weighted a'))
      | LeastConnections \<Rightarrow>
          (LeastConnections_select_instance (\<lambda>i. active_connections (deref i)) instances, alg)
      | Random \<Rightarrow> (Random_select_instance draw instances, alg)
      | LeastResponseTime \<Rightarrow>
          (LeastResponseTime_select_instance (\<lambda>i. get_average_response_time (deref i)) instances,
           alg))"

text \<open>\<^verbatim>\<open>str.lower\<close> on the ASCII letters, and the factory \<^verbatim>\<open>get_algorithm\<close>.\<close>

definition lower_char :: "char \<Rightarrow> char" where
  "lower_char c =
     (let n = (of_char c :: nat) in if 65 \<le> n \<and> n \<le> 90 then char_of (n + 32) else c)"

definition get_algorithm :: "string \<Rightarrow> 'a algorithm" where
  "get_algorithm algorithm_name =
     (let key = map lower_char algorithm_name
      in if key = ''round_robin'' then RoundRobin new_RoundRobinAlgorithm
         else if key = ''weighted'' then Weighted new_WeightedRoundRobinAlgorithm
         else if key = ''least_connections'' then LeastConnections
         else if key = ''random'' then Random
         else if key = ''least_response_time'' then LeastResponseTime
         else RoundRobin new_RoundRobinAlgorithm)"

text \<open>Selecting \<open>n\<close> times in a row from the same list, as the loops of the tests do.\<close>

fun RoundRobin_selections ::
  "nat \<Rightarrow> 'a list \<Rightarrow> LoadBalancingAlgorithm \<Rightarrow> 'a option list \<times> LoadBalancingAlgorithm" where
  "RoundRobin_selections 0 instances alg = ([], alg)"
| "RoundRobin_selections (Suc n) instances alg =
     (case RoundRobin_select_instance instances alg of
        (sel, alg') \<Rightarrow>
          (case RoundRobin_selections n instances alg' of
             (sels, alg'') \<Rightarrow> (sel # sels, alg'')))"

fun WeightedRoundRobin_selections ::
  "nat \<Rightarrow> ('a \<Rightarrow> int) \<Rightarrow> 'a list \<Rightarrow> 'a WeightedRoundRobinAlgorithm
     \<Rightarrow> 'a option list \<times> 'a WeightedRoundRobinAlgorithm" where
  "WeightedRoundRobin_selections 0 weight_of instances alg = ([], alg)"
| "WeightedRoundRobin_selections (Suc n) weight_of instances alg =
     (case WeightedRoundRobin_select_instance weight_of instances alg of
        (sel, alg') \<Rightarrow>
          (case WeightedRoundRobin_selections n weight_of instances alg' of
             (sels, alg'') \<Rightarrow> (sel # sels, alg'')))"

section \<open>\<^verbatim>\<open>load_balancer/balancer.py\<close>\<close>

text \<open>
  \<^verbatim>\<open>ServiceInstance\<close> objects are shared: the balancer's list and the failover manager's
  dictionaries hold references to the same objects, and a change of health made through one
  is seen through the other.  So the objects live in a heap, and the lists and dictionaries
  hold references.  \<open>next_ref\<close> is where the next object is created.
\<close>

type_synonym ref = nat

record heap =
  cells :: "ref \<Rightarrow> ServiceInstance"
  next_ref :: ref

definition alloc :: "ServiceInstance \<Rightarrow> heap \<Rightarrow> ref \<times> heap" where
  "alloc i h = (next_ref h, h\<lparr> cells := (cells h)(next_ref h := i), next_ref := Suc (next_ref h) \<rparr>)"

definition modify :: "ref \<Rightarrow> (ServiceInstance \<Rightarrow> ServiceInstance) \<Rightarrow> heap \<Rightarrow> heap" where
  "modify r f h = h\<lparr> cells := (cells h)(r := f (cells h r)) \<rparr>"

record LoadBalancer =
  instances :: "ref list"
  algorithm :: "ref algorithm"
  algorithm_name :: string

definition new_LoadBalancer :: "string \<Rightarrow> LoadBalancer" where
  "new_LoadBalancer alg =
     \<lparr> instances = [], algorithm = get_algorithm alg, algorithm_name = alg \<rparr>"

definition add_instance ::
  "string \<Rightarrow> string \<Rightarrow> int \<Rightarrow> real \<Rightarrow> LoadBalancer \<times> heap \<Rightarrow> LoadBalancer \<times> heap" where
  "add_instance n u w now st =
     (case st of (lb, h) \<Rightarrow>
        (case alloc (new_instance n u w now) h of
           (r, h') \<Rightarrow> (lb\<lparr> instances := instances lb @ [r] \<rparr>, h')))"

definition remove_instance :: "string \<Rightarrow> LoadBalancer \<times> heap \<Rightarrow> LoadBalancer \<times> heap" where
  "remove_instance n st =
     (case st of (lb, h) \<Rightarrow>
        (lb\<lparr> instances := filter (\<lambda>r. name (cells h r) \<noteq> n) (instances lb) \<rparr>, h))"

definition get_healthy_instances :: "LoadBalancer \<Rightarrow> heap \<Rightarrow> ref list" where
  "get_healthy_instances lb h = filter (\<lambda>r. is_healthy (cells h r)) (instances lb)"

text \<open>\<open>draw\<close> is the random draw of the \<^verbatim>\<open>random\<close> algorithm, unused by the others.\<close>

definition get_next_instance :: "nat \<Rightarrow> LoadBalancer \<Rightarrow> heap \<Rightarrow> ref option \<times> LoadBalancer" where
  "get_next_instance draw lb h =
     (let healthy_instances = get_healthy_instances lb h
      in if healthy_instances = [] then (None, lb)
         else (case select_instance (cells h) draw healthy_instances (algorithm lb) of
                 (sel, alg') \<Rightarrow> (sel, lb\<lparr> algorithm := alg' \<rparr>)))"

fun get_instance_by_name_in :: "heap \<Rightarrow> string \<Rightarrow> ref list \<Rightarrow> ref option" where
  "get_instance_by_name_in h n [] = None"
| "get_instance_by_name_in h n (r # rs) =
     (if name (cells h r) = n then Some r else get_instance_by_name_in h n rs)"

definition get_instance_by_name :: "string \<Rightarrow> LoadBalancer \<Rightarrow> heap \<Rightarrow> ref option" where
  "get_instance_by_name n lb h = get_instance_by_name_in h n (instances lb)"

text \<open>
  What the HTTP request of \<^verbatim>\<open>forward_request\<close> does.  It answers with a status code and
  a body, after a measured time; \<^verbatim>\<open>response.json()\<close>, which the method evaluates inside
  the \<^verbatim>\<open>try\<close> and after the first decrement, then yields the decoded body or raises.
  The decoding error of the \<^verbatim>\<open>requests\<close> library is a \<^verbatim>\<open>RequestException\<close> in its
  newer versions, which the last handler of the method catches, and a plain
  \<^verbatim>\<open>ValueError\<close> in older ones, which no handler catches.  Or the request raises
  \<^verbatim>\<open>Timeout\<close>, another \<^verbatim>\<open>RequestException\<close>, or an exception the method does not
  catch.
\<close>

datatype 'j decoded =
    Json 'j
  | Decode_RequestException string
  | Decode_error string

datatype 'j transport =
    Responded int "'j decoded" real
  | Timed_out
  | Request_failed string
  | Other_failure string

text \<open>What the method returns: the decoded body, or one of its own error dictionaries.\<close>

datatype 'j payload = Body 'j | Error_dict "(string \<times> string) list"

text \<open>
  \<^verbatim>\<open>forward_request(path, method, data, timeout)\<close>.  The three branches on \<^verbatim>\<open>method\<close>
  differ only in the request sent, which \<open>tr\<close> stands for.  \<open>now\<close> and \<open>now2\<close> are the
  clock readings of the first and, where there is one, the second
  \<^verbatim>\<open>record_request\<close>.
\<close>

definition forward_request ::
  "real \<Rightarrow> 'j transport \<Rightarrow> nat \<Rightarrow> real \<Rightarrow> real \<Rightarrow> LoadBalancer \<times> heap
     \<Rightarrow> (string, 'j payload \<times> int) result \<times> LoadBalancer \<times> heap" where
  "forward_request tmo tr draw now now2 st =
     (case st of (lb, h) \<Rightarrow>
       (case get_next_instance draw lb h of
          (None, lb') \<Rightarrow>
            (Returned (Error_dict [(''error'', ''No healthy instances available''),
                                   (''status'', ''error'')], 503), lb', h)
        | (Some r, lb') \<Rightarrow>
            (let h1 = modify r increment_connections h
             in case tr of
                  Responded status_code body response_time \<Rightarrow>
                    (let success = (status_code < 400);
                         h2 = modify r (record_request success response_time now) h1;
                         h3 = modify r decrement_connections h2
                     in case body of
                          Json j \<Rightarrow> (Returned (Body j, status_code), lb', h3)
                        | Decode_RequestException e \<Rightarrow>
                            (let h4 = modify r (record_request False 0 now2) h3;
                                 h5 = modify r decrement_connections h4
                             in (Returned (Error_dict [(''error'', e),
                                                       (''service'', name (cells h5 r))], 502),
                                 lb', h5))
                        | Decode_error e \<Rightarrow> (Raised e, lb', h3))
                | Timed_out \<Rightarrow>
                    (let h2 = modify r (record_request False tmo now) h1;
                         h3 = modify r decrement_connections h2
                     in (Returned (Error_dict [(''error'', ''Request timeout''),
                                               (''service'', name (cells h3 r))], 504), lb', h3))
                | Request_failed e \<Rightarrow>
                    (let h2 = modify r (record_request False 0 now) h1;
                         h3 = modify r decrement_connections h2
                     in (Returned (Error_dict [(''error'', e),
                                               (''service'', name (cells h3 r))], 502), lb', h3))
                | Other_failure e \<Rightarrow> (Raised e, lb', h1))))"

text \<open>
  The operations that touch \<^verbatim>\<open>active_connections\<close>, or the pool, made one after the
  other in any order: the two connection methods called on any object, a dispatch through
  \<^verbatim>\<open>forward_request\<close> with any outcome of the request, adding and removing instances, and
  the health marks.  A caller carries on after a dispatch that raised.
\<close>

datatype 'j operation =
    Increment ref
  | Decrement ref
  | Dispatch real "'j transport" nat real real
  | Add string string int real
  | Remove string
  | Mark_healthy ref real
  | Mark_unhealthy ref real

fun apply_operation :: "'j operation \<Rightarrow> LoadBalancer \<times> heap \<Rightarrow> LoadBalancer \<times> heap" where
  "apply_operation (Increment r) (lb, h) = (lb, modify r increment_connections h)"
| "apply_operation (Decrement r) (lb, h) = (lb, modify r decrement_connections h)"
| "apply_operation (Dispatch tmo tr draw now now2) (lb, h) =
     snd (forward_request tmo tr draw now now2 (lb, h))"
| "apply_operation (Add n u w now) (lb, h) = add_instance n u w now (lb, h)"
| "apply_operation (Remove n) (lb, h) = remove_instance n (lb, h)"
| "apply_operation (Mark_healthy r now) (lb, h) = (lb, modify r (mark_healthy now) h)"
| "apply_operation (Mark_unhealthy r now) (lb, h) = (lb, modify r (mark_unhealthy now) h)"

fun apply_operations :: "'j operation list \<Rightarrow> LoadBalancer \<times> heap \<Rightarrow> LoadBalancer \<times> heap" where
  "apply_operations [] st = st"
| "apply_operations (op # ops) st = apply_operations ops (apply_operation op st)"

section \<open>\<^verbatim>\<open>failover/failover_manager.py\<close>\<close>

text \<open>An entry of \<^verbatim>\<open>failover_history\<close>; the fields are the keys of the dictionary.\<close>

record failover_event =
  ev_timestamp :: real
  ev_type :: string
  ev_from :: string
  ev_to :: string
  ev_reason :: string

text \<open>
  A Python dictionary keeps its keys in the order of their first insertion; assigning to a
  key that is present replaces the value in place.
\<close>

fun dict_set :: "'k \<Rightarrow> 'v \<Rightarrow> ('k \<times> 'v) list \<Rightarrow> ('k \<times> 'v) list" where
  "dict_set k v [] = [(k, v)]"
| "dict_set k v ((k', v') # d) = (if k' = k then (k, v) # d else (k', v') # dict_set k v d)"

record FailoverManager =
  enable_failback :: bool
  primary_instances :: "(string \<times> ref) list"
  backup_instances :: "(string \<times> ref) list"
  failover_history :: "failover_event list"

definition new_FailoverManager :: "bool \<Rightarrow> FailoverManager" where
  "new_FailoverManager fb =
     \<lparr> enable_failback = fb, primary_instances = [], backup_instances = [],
       failover_history = [] \<rparr>"

text \<open>The manager reaches the pool through \<^verbatim>\<open>self.load_balancer\<close>, here \<open>lb\<close> and \<open>h\<close>.\<close>

definition set_primary :: "string \<Rightarrow> LoadBalancer \<Rightarrow> heap \<Rightarrow> FailoverManager \<Rightarrow> FailoverManager" where
  "set_primary instance_name lb h fm =
     (case get_instance_by_name instance_name lb h of
        None \<Rightarrow> fm
      | Some r \<Rightarrow> fm\<lparr> primary_instances := dict_set instance_name r (primary_instances fm) \<rparr>)"

definition set_backup ::
  "string \<Rightarrow> string \<Rightarrow> LoadBalancer \<Rightarrow> heap \<Rightarrow> FailoverManager \<Rightarrow> FailoverManager" where
  "set_backup primary_name backup_name lb h fm =
     (case get_instance_by_name backup_name lb h of
        None \<Rightarrow> fm
      | Some r \<Rightarrow> fm\<lparr> backup_instances := dict_set primary_name r (backup_instances fm) \<rparr>)"

text \<open>
  \<^verbatim>\<open>_perform_failover(primary, backup)\<close> appends one entry; \<open>now\<close> is its reading of
  \<^verbatim>\<open>time.time()\<close>.  The log line and the printed line are not modelled.
\<close>

definition perform_failover ::
  "ServiceInstance \<Rightarrow> ServiceInstance \<Rightarrow> real \<Rightarrow> FailoverManager \<Rightarrow> FailoverManager" where
  "perform_failover primary backup now fm =
     fm\<lparr> failover_history := failover_history fm @
           [\<lparr> ev_timestamp = now, ev_type = ''failover'', ev_from = name primary,
              ev_to = name backup, ev_reason = ''primary_unhealthy'' \<rparr>] \<rparr>"

definition perform_failback ::
  "ServiceInstance \<Rightarrow> ServiceInstance \<Rightarrow> real \<Rightarrow> FailoverManager \<Rightarrow> FailoverManager" where
  "perform_failback primary backup now fm =
     fm\<lparr> failover_history := failover_history fm @
           [\<lparr> ev_timestamp = now, ev_type = ''failback'', ev_from = name backup,
              ev_to = name primary, ev_reason = ''primary_recovered'' \<rparr>] \<rparr>"

text \<open>
  The loop of \<^verbatim>\<open>check_and_failover\<close> over \<^verbatim>\<open>primary_instances.items()\<close>, in
  dictionary order.  \<open>clock n\<close> is the reading of \<^verbatim>\<open>time.time()\<close> taken for the entry
  that is appended when the log holds \<open>n\<close> entries.
\<close>

fun failover_loop ::
  "(string \<times> ref) list \<Rightarrow> heap \<Rightarrow> (nat \<Rightarrow> real) \<Rightarrow> FailoverManager \<Rightarrow> FailoverManager" where
  "failover_loop [] h clock fm = fm"
| "failover_loop ((primary_name, primary) # rest) h clock fm =
     failover_loop rest h clock
       (if \<not> is_healthy (cells h primary) then
          (case map_of (backup_instances fm) primary_name of
             None \<Rightarrow> fm
           | Some backup \<Rightarrow>
               if is_healthy (cells h backup)
               then perform_failover (cells h primary) (cells h backup)
                      (clock (length (failover_history fm))) fm
               else fm)
        else fm)"

definition check_and_failover :: "heap \<Rightarrow> (nat \<Rightarrow> real) \<Rightarrow> FailoverManager \<Rightarrow> FailoverManager" where
  "check_and_failover h clock fm = failover_loop (primary_instances fm) h clock fm"

fun failback_loop ::
  "(string \<times> ref) list \<Rightarrow> heap \<Rightarrow> (nat \<Rightarrow> real) \<Rightarrow> FailoverManager \<Rightarrow> FailoverManager" where
  "failback_loop [] h clock fm = fm"
| "failback_loop ((primary_name, primary) # rest) h clock fm =
     failback_loop rest h clock
       (if is_healthy (cells h primary) then
          (case map_of (backup_instances fm) primary_name of
             None \<Rightarrow> fm
           | Some backup \<Rightarrow>
               if total_requests (cells h backup) > total_requests (cells h primary)
               then perform_failback (cells h primary) (cells h backup)
                      (clock (length (failover_history fm))) fm
               else fm)
        else fm)"

definition check_and_failback :: "heap \<Rightarrow> (nat \<Rightarrow> real) \<Rightarrow> FailoverManager \<Rightarrow> FailoverManager" where
  "check_and_failback h clock fm =
     (if \<not> enable_failback fm then fm else failback_loop (primary_instances fm) h clock fm)"

text \<open>Calling \<^verbatim>\<open>check_and_failover\<close> \<open>n\<close> times while nothing else happens.\<close>

fun repeat_check_and_failover ::
  "nat \<Rightarrow> heap \<Rightarrow> (nat \<Rightarrow> real) \<Rightarrow> FailoverManager \<Rightarrow> FailoverManager" where
  "repeat_check_and_failover 0 h clock fm = fm"
| "repeat_check_and_failover (Suc n) h clock fm =
     repeat_check_and_failover n h clock (check_and_failover h clock fm)"

text \<open>
  The entries of \<^verbatim>\<open>primary_instances\<close> for which a call of
  \<^verbatim>\<open>check_and_failover\<close> finds a failover due: the primary is not healthy and has a
  registered backup that is healthy.  Each comes as the primary's key, the primary and
  its backup, in dictionary order.
\<close>

definition due_entries ::
  "heap \<Rightarrow> (string \<times> ref) list \<Rightarrow> (string \<times> ref) list \<Rightarrow> (string \<times> ref \<times> ref) list" where
  "due_entries h backups primaries =
     concat (map (\<lambda>(primary_name, primary).
                    case map_of backups primary_name of
                      None \<Rightarrow> []
                    | Some backup \<Rightarrow>
                        if \<not> is_healthy (cells h primary) \<and> is_healthy (cells h backup)
                        then [(primary_name, primary, backup)] else [])
                 primaries)"

definition failover_due :: "heap \<Rightarrow> FailoverManager \<Rightarrow> (string \<times> ref \<times> ref) list" where
  "failover_due h fm = due_entries h (backup_instances fm) (primary_instances fm)"

text \<open>The entry that \<^verbatim>\<open>_perform_failover\<close> appends, read at \<open>now\<close>.\<close>

definition failover_entry :: "heap \<Rightarrow> real \<Rightarrow> string \<times> ref \<times> ref \<Rightarrow> failover_event" where
  "failover_entry h now e =
     (case e of (primary_name, primary, backup) \<Rightarrow>
        \<lparr> ev_timestamp = now, ev_type = ''failover'', ev_from = name (cells h primary),
          ev_to = name (cells h backup), ev_reason = ''primary_unhealthy'' \<rparr>)"

section \<open>Scenarios of \<^verbatim>\<open>tests.py\<close>\<close>

text \<open>
  The two functions that \<^verbatim>\<open>test_04_circuit_breaker\<close> wraps: one raises
  \<^verbatim>\<open>Exception("Error")\<close>, one returns \<^verbatim>\<open>"success"\<close>.  Their environment counts how
  often they have been invoked.
\<close>

definition raising_function :: "nat \<Rightarrow> (string, string) result \<times> nat" where
  "raising_function invocations = (Raised ''Error'', Suc invocations)"

definition returning_function :: "nat \<Rightarrow> (string, string) result \<times> nat" where
  "returning_function invocations = (Returned ''success'', Suc invocations)"

text \<open>Three failing calls at the clock readings 1, 2, 3; three succeeding calls later.\<close>

definition three_failures :: "(real \<times> real \<times> (nat \<Rightarrow> (string, string) result \<times> nat)) list" where
  "three_failures = [(1, 1, raising_function), (2, 2, raising_function), (3, 3, raising_function)]"

definition three_successes :: "(real \<times> real \<times> (nat \<Rightarrow> (string, string) result \<times> nat)) list" where
  "three_successes =
     [(4.5, 4.5, returning_function), (5, 5, returning_function), (6, 6, returning_function)]"

text \<open>Failures and successes in turn.\<close>

definition interleaved_calls :: "(real \<times> real \<times> (nat \<Rightarrow> (string, string) result \<times> nat)) list" where
  "interleaved_calls =
     [(1, 1, raising_function), (2, 2, returning_function), (3, 3, raising_function),
      (4, 4, returning_function)]"

text \<open>
  The breaker of the test, \<^verbatim>\<open>CircuitBreaker(failure_threshold=3, timeout=1)\<close>, as the
  three failures leave it, and a breaker in \<open>HALF_OPEN\<close> that has issued all its calls.
\<close>

definition test_04_open_breaker :: CircuitBreaker where
  "test_04_open_breaker =
     \<lparr> failure_threshold = 3, timeout = 1, half_open_max_calls = 3,
       state = OPEN, failure_count = 3, success_count = 0,
       last_failure_time = Some 3, half_open_calls = 0 \<rparr>"

definition half_open_breaker_at_limit :: CircuitBreaker where
  "half_open_breaker_at_limit =
     \<lparr> failure_threshold = 3, timeout = 1, half_open_max_calls = 3,
       state = HALF_OPEN, failure_count = 0, success_count = 0,
       last_failure_time = Some 3, half_open_calls = 3 \<rparr>"

text \<open>A heap in which no object has been created; its cells hold a placeholder.\<close>

definition empty_heap :: heap where
  "empty_heap = \<lparr> cells = (\<lambda>r. new_instance [] [] 1 0), next_ref = 0 \<rparr>"

text \<open>The instance of \<^verbatim>\<open>test_03_health_monitoring\<close>.\<close>

definition service_1 :: ServiceInstance where
  "service_1 = new_instance ''service-1'' ''http://localhost:5001'' 1 0"

text \<open>The three instances of \<^verbatim>\<open>test_01_round_robin_algorithm\<close>, by name.\<close>

definition three_services :: "string list" where
  "three_services = [''service-1'', ''service-2'', ''service-3'']"

text \<open>The weights of \<^verbatim>\<open>test_02_weighted_algorithm\<close>: 3 for service-1, 1 for service-2.\<close>

definition service_weight :: "string \<Rightarrow> int" where
  "service_weight n = (if n = ''service-1'' then 3 else 1)"

text \<open>
  The pool, the manager and the health marks of \<^verbatim>\<open>test_05_failover_mechanism\<close>: the
  primary is object 0 and is marked unhealthy, the backup is object 1 and is marked
  healthy.
\<close>

definition test_05_pool :: "LoadBalancer \<times> heap" where
  "test_05_pool =
     add_instance ''backup'' ''http://localhost:5002'' 1 0
       (add_instance ''primary'' ''http://localhost:5001'' 1 0
          (new_LoadBalancer ''round_robin'', empty_heap))"

definition test_05_manager :: FailoverManager where
  "test_05_manager =
     set_backup ''primary'' ''backup'' (fst test_05_pool) (snd test_05_pool)
       (set_primary ''primary'' (fst test_05_pool) (snd test_05_pool)
          (new_FailoverManager True))"

definition test_05_heap :: heap where
  "test_05_heap = modify 1 (mark_healthy 2) (modify 0 (mark_unhealthy 1) (snd test_05_pool))"

definition test_clock :: "nat \<Rightarrow> real" where
  "test_clock n = 10 + real n"

text \<open>
  One healthy instance, then connection calls and dispatches in turn: a decrement with
  nothing open, a dispatch whose body does not decode, one that times out, and two
  decrements after one increment.
\<close>

definition connection_operations :: "unit operation list" where
  "connection_operations =
     [Add ''service-1'' ''http://localhost:5001'' 1 0, Mark_healthy 0 1, Decrement 0,
      Dispatch 5 (Responded 200 (Decode_RequestException ''not JSON'') 1) 0 2 3,
      Dispatch 5 Timed_out 0 4 4, Increment 0, Decrement 0, Decrement 0]"

section \<open>Health checks\<close>

lemmas health_defs = check_instance_health_def probe_step_def threshold_step_def
  mark_unhealthy_def mark_healthy_def

text \<open>
  Claim C7, as amended.  Through \<^verbatim>\<open>check_instance_health\<close>, a probe that answers with a
  status other than 200 (every non-success status is one), that times out, or that fails
  with another request error leaves the instance \<open>UNHEALTHY\<close> with
  \<open>consecutive_failures\<close> one higher, whatever the threshold.  A probe that answers 200
  leaves the instance \<open>HEALTHY\<close> with \<open>consecutive_failures\<close> 0 when
  \<open>unhealthy_threshold\<close> is at least 1.
\<close>

theorem probe_sets_health:
  "(status_code \<noteq> 200 \<longrightarrow>
      (\<exists>i' logs. check_instance_health thr (Response status_code) now now2 i = Returned (i', logs)
         \<and> health_status i' = UNHEALTHY
         \<and> consecutive_failures i' = consecutive_failures i + 1))
   \<and> (\<exists>i' logs. check_instance_health thr Timeout now now2 i = Returned (i', logs)
         \<and> health_status i' = UNHEALTHY
         \<and> consecutive_failures i' = consecutive_failures i + 1)
   \<and> (\<exists>i' logs. check_instance_health thr (RequestException e) now now2 i = Returned (i', logs)
         \<and> health_status i' = UNHEALTHY
         \<and> consecutive_failures i' = consecutive_failures i + 1)
   \<and> (1 \<le> thr \<longrightarrow>
      (\<exists>i' logs. check_instance_health thr (Response 200) now now2 i = Returned (i', logs)
         \<and> health_status i' = HEALTHY
         \<and> consecutive_failures i' = 0))"
  by (simp add: health_defs)

theorem probe_sets_health_witness:
  "(503::int) \<noteq> 200 \<and> (1::int) \<le> 3
   \<and> check_instance_health 3 (Response 503) 1 2 service_1
       = Returned (service_1\<lparr> health_status := UNHEALTHY, consecutive_failures := 1,
                               last_health_check := Some 1 \<rparr>,
                   [Warning_status ''service-1'' 503])
   \<and> check_instance_health 3 (Response 200) 1 2 service_1
       = Returned (service_1\<lparr> health_status := HEALTHY, consecutive_failures := 0,
                               last_health_check := Some 1 \<rparr>,
                   [Debug_healthy ''service-1''])"
  using probe_sets_health [of 503 3 1 2 service_1]
  by (simp add: health_defs service_1_def new_instance_def)

text \<open>
  Claim C7 as stated fails: with \<^verbatim>\<open>unhealthy_threshold=0\<close> the threshold check finds
  \<open>0 \<ge> 0\<close> after a probe that answered 200, and marks the instance unhealthy: the
  successful probe leaves it \<open>UNHEALTHY\<close> with \<open>consecutive_failures\<close> 1.
\<close>

theorem successful_probe_zero_threshold_counterexample:
  "check_instance_health 0 (Response 200) 1 2 service_1
     = Returned (service_1\<lparr> health_status := UNHEALTHY, consecutive_failures := 1,
                             last_health_check := Some 2 \<rparr>,
                 [Debug_healthy ''service-1'', Error_marked_unhealthy ''service-1'' 1])"
  by (simp add: health_defs service_1_def new_instance_def)

text \<open>
  Claim C9.  For \<open>unhealthy_threshold \<ge> 1\<close> the branch of the threshold check that marks
  the instance a second time is never taken: after the probe step the instance is
  \<open>UNHEALTHY\<close> or its \<open>consecutive_failures\<close> is 0, the threshold check changes nothing,
  one call adds 1 to \<open>consecutive_failures\<close> or resets it to 0, and no escalation record
  is logged.  When the probe step raises, the call raises and the check is not reached.
\<close>

theorem escalation_unreachable:
  "1 \<le> thr \<Longrightarrow>
     (\<forall>e. probe_step p now i = Raised e \<longrightarrow> check_instance_health thr p now now2 i = Raised e)
   \<and> (\<forall>i1 logs. probe_step p now i = Returned (i1, logs) \<longrightarrow>
        (health_status i1 = UNHEALTHY \<or> consecutive_failures i1 = 0)
      \<and> threshold_step thr now2 (i1, logs) = (i1, logs)
      \<and> check_instance_health thr p now now2 i = Returned (i1, logs)
      \<and> (consecutive_failures i1 = consecutive_failures i + 1 \<or> consecutive_failures i1 = 0)
      \<and> (0 \<le> consecutive_failures i \<longrightarrow> consecutive_failures i1 \<le> consecutive_failures i + 1)
      \<and> \<not> list_ex is_escalation logs)"
  by (cases p) (auto simp: health_defs)

theorem escalation_unreachable_witness:
  "(1::int) \<le> 3
   \<and> probe_step Timeout 1 (mark_unhealthy 0 (mark_unhealthy 0 service_1))
       = Returned (service_1\<lparr> health_status := UNHEALTHY, consecutive_failures := 3,
                               last_health_check := Some 1 \<rparr>, [Warning_timeout ''service-1''])
   \<and> check_instance_health 3 Timeout 1 2 (mark_unhealthy 0 (mark_unhealthy 0 service_1))
       = Returned (service_1\<lparr> health_status := UNHEALTHY, consecutive_failures := 3,
                               last_health_check := Some 1 \<rparr>, [Warning_timeout ''service-1''])
   \<and> \<not> list_ex is_escalation [Warning_timeout ''service-1'']"
  using escalation_unreachable [of 3 Timeout 1 "mark_unhealthy 0 (mark_unhealthy 0 service_1)" 2]
  by (simp add: health_defs service_1_def new_instance_def)

section \<open>The circuit breaker\<close>

lemmas breaker_defs = call_def new_breaker_def on_failure_def on_success_def
  transition_to_open_def transition_to_half_open_def transition_to_closed_def
  should_attempt_reset_def

lemma call_half_open_success:
  assumes "state b = HALF_OPEN" "half_open_calls b < half_open_max_calls b"
    and "func env = (Returned r, env')"
  shows "call b now now2 func env
           = (Returned r, on_success (b\<lparr> half_open_calls := half_open_calls b + 1 \<rparr>), env')"
  using assms by (simp add: call_def)

lemma half_open_successes:
  assumes "state b = HALF_OPEN" "success_count b = half_open_calls b"
    and "\<forall>c \<in> set cs. succeeding (snd (snd c))"
    and "half_open_calls b + int (length cs) \<le> half_open_max_calls b"
    and "calls b cs env = (outs, b', env')"
  shows "(\<forall>out \<in> set outs. \<not> is_raised out) \<and> length outs = length cs
       \<and> half_open_max_calls b' = half_open_max_calls b
       \<and> (if cs \<noteq> [] \<and> half_open_calls b + int (length cs) = half_open_max_calls b
          then state b' = CLOSED \<and> failure_count b' = 0 \<and> success_count b' = 0
               \<and> half_open_calls b' = 0
          else state b' = HALF_OPEN \<and> success_count b' = half_open_calls b'
               \<and> half_open_calls b' = half_open_calls b + int (length cs))"
  using assms
proof (induction cs arbitrary: b env outs b' env')
  case Nil
  then show ?case by simp
next
  case (Cons c cs)
  obtain now now2 func where c: "c = (now, now2, func)" by (cases c) auto
  from Cons.prems(3) c have "succeeding func" by simp
  then obtain r env1 where f: "func env = (Returned r, env1)"
    unfolding succeeding_def by blast
  let ?b1 = "on_success (b\<lparr> half_open_calls := half_open_calls b + 1 \<rparr>)"
  from Cons.prems(4) have lt: "half_open_calls b < half_open_max_calls b" by simp
  have step: "call b now now2 func env = (Returned r, ?b1, env1)"
    using Cons.prems(1) lt f by (rule call_half_open_success)
  obtain outs1 where rest: "calls ?b1 cs env1 = (outs1, b', env')" and outs: "outs = Returned r # outs1"
    using Cons.prems(5) c step by (auto split: prod.splits)
  show ?case
  proof (cases "cs = []")
    case True
    with rest outs Cons.prems(1,2,4) show ?thesis
      by (auto simp: on_success_def transition_to_closed_def Let_def)
  next
    case False
    then have len: "1 \<le> int (length cs)" by (cases cs) simp_all
    with Cons.prems(4) have lt2: "half_open_calls b + 1 < half_open_max_calls b" by simp
    have b1: "?b1 = b\<lparr> half_open_calls := half_open_calls b + 1, success_count := success_count b + 1 \<rparr>"
      using Cons.prems(1,2) lt2 by (simp add: on_success_def Let_def)
    have s1: "state ?b1 = HALF_OPEN" "success_count ?b1 = half_open_calls ?b1"
      "half_open_calls ?b1 = half_open_calls b + 1" "half_open_max_calls ?b1 = half_open_max_calls b"
      using Cons.prems(1,2) by (simp_all add: b1)
    have bound: "half_open_calls ?b1 + int (length cs) \<le> half_open_max_calls ?b1"
      using Cons.prems(4) s1 by simp
    have all: "\<forall>c \<in> set cs. succeeding (snd (snd c))" using Cons.prems(3) by simp
    from Cons.IH[OF s1(1) s1(2) all bound rest] False outs s1 show ?thesis
      by (auto split: if_splits)
  qed
qed

lemma closed_calls:
  assumes "state b = CLOSED"
    and "calls b cs env = (outs, b', env')"
    and "failure_count b + int (length (filter is_failure outs)) < failure_threshold b"
  shows "state b' = CLOSED
       \<and> failure_count b' = failure_count b + int (length (filter is_failure outs))
       \<and> failure_threshold b' = failure_threshold b
       \<and> length outs = length cs \<and> (\<forall>out \<in> set outs. is_raised out \<longrightarrow> is_failure out)"
  using assms
proof (induction cs arbitrary: b env outs b' env')
  case Nil
  then show ?case by auto
next
  case (Cons c cs)
  obtain now now2 func where c: "c = (now, now2, func)" by (cases c) auto
  obtain out b1 env1 where step: "call b now now2 func env = (out, b1, env1)"
    by (cases "call b now now2 func env") auto
  obtain outs1 where rest: "calls b1 cs env1 = (outs1, b', env')" and outs: "outs = out # outs1"
    using Cons.prems(2) c step by (auto split: prod.splits)
  have fc: "failure_count b + (if is_failure out then 1 else 0) + int (length (filter is_failure outs1))
              < failure_threshold b"
    using Cons.prems(3) outs by (cases "is_failure out") simp_all
  have b1: "state b1 = CLOSED \<and> failure_threshold b1 = failure_threshold b
          \<and> failure_count b1 = failure_count b + (if is_failure out then 1 else 0)
          \<and> (is_raised out \<longrightarrow> is_failure out)"
    using step Cons.prems(1) fc
    by (cases "func env"; cases "fst (func env)")
       (auto simp: call_def on_success_def on_failure_def Let_def transition_to_open_def)
  then have "failure_count b1 + int (length (filter is_failure outs1)) < failure_threshold b1"
    using fc by simp
  from Cons.IH[OF _ rest this] b1 outs show ?case by auto
qed

lemma calls_open_elapsed:
  assumes "state b = OPEN" "should_attempt_reset now b"
  shows "call b now now2 func env = call (transition_to_half_open b) now now2 func env"
  using assms by (simp add: call_def transition_to_half_open_def)


text \<open>
  Claim C1, as amended: the claim for a breaker whose \<open>half_open_max_calls\<close> is at least 1.
  Built with \<^verbatim>\<open>failure_threshold=3\<close>, the breaker is \<open>CLOSED\<close> after one and after two
  failed calls and \<open>OPEN\<close> after the third.  A call on an \<open>OPEN\<close> breaker made less than
  \<open>timeout\<close> after the last failure raises the circuit-open rejection and leaves breaker
  and environment as they were: the wrapped function is not invoked.  A call made
  \<open>timeout\<close> or more after the last failure is the call on the breaker moved to
  \<open>HALF_OPEN\<close>, and so are the calls that follow it: the function is invoked with one
  half-open call issued.  From \<open>HALF_OPEN\<close> with its counters at 0, as the move leaves
  them, \<open>half_open_max_calls\<close> calls that all succeed are
  all admitted, the breaker stays \<open>HALF_OPEN\<close> before the last of them and ends \<open>CLOSED\<close>
  with \<open>failure_count\<close>, \<open>success_count\<close> and \<open>half_open_calls\<close> at 0.
\<close>

theorem circuit_breaker_cycle:
  "(failing f1 \<and> failing f2 \<and> failing f3 \<longrightarrow>
      state (fst (snd (calls (new_breaker 3 tmo homc) [(s1, t1, f1)] env))) = CLOSED
    \<and> state (fst (snd (calls (new_breaker 3 tmo homc) [(s1, t1, f1), (s2, t2, f2)] env))) = CLOSED
    \<and> state (fst (snd (calls (new_breaker 3 tmo homc)
                          [(s1, t1, f1), (s2, t2, f2), (s3, t3, f3)] env))) = OPEN
    \<and> last_failure_time (fst (snd (calls (new_breaker 3 tmo homc)
                          [(s1, t1, f1), (s2, t2, f2), (s3, t3, f3)] env))) = Some t3)
   \<and> (state b = OPEN \<and> last_failure_time b = Some tf \<and> now - tf < timeout b \<longrightarrow>
        call b now now2 func env
          = (Raised (Exception ''Circuit breaker is OPEN. Service unavailable.''), b, env))
   \<and> (1 \<le> half_open_max_calls bo \<and> state bo = OPEN \<and> last_failure_time bo = Some tfo
        \<and> later - tfo \<ge> timeout bo \<longrightarrow>
        state (transition_to_half_open bo) = HALF_OPEN
      \<and> call bo later later2 func env = call (transition_to_half_open bo) later later2 func env
      \<and> calls bo ((later, later2, func) # following) env
          = calls (transition_to_half_open bo) ((later, later2, func) # following) env
      \<and> call bo later later2 func env =
          (case func env of
             (Returned r, env') \<Rightarrow>
               (Returned r,
                on_success ((transition_to_half_open bo)\<lparr> half_open_calls := 1 \<rparr>), env')
           | (Raised x, env') \<Rightarrow>
               (Raised (Propagated x),
                on_failure later2 ((transition_to_half_open bo)\<lparr> half_open_calls := 1 \<rparr>), env')))
   \<and> (1 \<le> half_open_max_calls bh \<and> state bh = HALF_OPEN
        \<and> success_count bh = 0 \<and> half_open_calls bh = 0
        \<and> int (length cs) = half_open_max_calls bh
        \<and> (\<forall>c \<in> set cs. succeeding (snd (snd c))) \<longrightarrow>
        (\<forall>k < length cs. state (fst (snd (calls bh (take k cs) env))) = HALF_OPEN)
      \<and> list_all (\<lambda>out. \<not> is_raised out) (fst (calls bh cs env))
      \<and> state (fst (snd (calls bh cs env))) = CLOSED
      \<and> failure_count (fst (snd (calls bh cs env))) = 0
      \<and> success_count (fst (snd (calls bh cs env))) = 0
      \<and> half_open_calls (fst (snd (calls bh cs env))) = 0)"
proof (intro conjI impI)
  assume f: "failing f1 \<and> failing f2 \<and> failing f3"
  let ?b0 = "new_breaker 3 tmo homc"
  obtain x1 e1 where 1: "f1 env = (Raised x1, e1)" using f unfolding failing_def by blast
  obtain x2 e2 where 2: "f2 e1 = (Raised x2, e2)" using f unfolding failing_def by blast
  obtain x3 e3 where 3: "f3 e2 = (Raised x3, e3)" using f unfolding failing_def by blast
  show "state (fst (snd (calls ?b0 [(s1, t1, f1)] env))) = CLOSED"
    using 1 by (simp add: call_def new_breaker_def on_failure_def Let_def)
  show "state (fst (snd (calls ?b0 [(s1, t1, f1), (s2, t2, f2)] env))) = CLOSED"
    using 1 2 by (simp add: call_def new_breaker_def on_failure_def Let_def)
  show "state (fst (snd (calls ?b0 [(s1, t1, f1), (s2, t2, f2), (s3, t3, f3)] env))) = OPEN"
    using 1 2 3
    by (simp add: call_def new_breaker_def on_failure_def Let_def transition_to_open_def)
  show "last_failure_time (fst (snd (calls ?b0 [(s1, t1, f1), (s2, t2, f2), (s3, t3, f3)] env)))
          = Some t3"
    using 1 2 3
    by (simp add: call_def new_breaker_def on_failure_def Let_def transition_to_open_def)
next
  assume "state b = OPEN \<and> last_failure_time b = Some tf \<and> now - tf < timeout b"
  then show "call b now now2 func env
          = (Raised (Exception ''Circuit breaker is OPEN. Service unavailable.''), b, env)"
    by (simp add: call_def should_attempt_reset_def)
next
  assume a: "1 \<le> half_open_max_calls bo \<and> state bo = OPEN \<and> last_failure_time bo = Some tfo
        \<and> later - tfo \<ge> timeout bo"
  show "state (transition_to_half_open bo) = HALF_OPEN"
    by (simp add: transition_to_half_open_def)
  from a have r: "should_attempt_reset later bo" by (simp add: should_attempt_reset_def)
  with a show step: "call bo later later2 func env
      = call (transition_to_half_open bo) later later2 func env"
    by (simp add: calls_open_elapsed)
  show "calls bo ((later, later2, func) # following) env
      = calls (transition_to_half_open bo) ((later, later2, func) # following) env"
    by (simp add: step)
  from a r show "call bo later later2 func env =
          (case func env of
             (Returned r, env') \<Rightarrow>
               (Returned r,
                on_success ((transition_to_half_open bo)\<lparr> half_open_calls := 1 \<rparr>), env')
           | (Raised x, env') \<Rightarrow>
               (Raised (Propagated x),
                on_failure later2 ((transition_to_half_open bo)\<lparr> half_open_calls := 1 \<rparr>), env'))"
    by (simp add: call_def transition_to_half_open_def split: prod.splits result.splits)
next
  assume a: "1 \<le> half_open_max_calls bh \<and> state bh = HALF_OPEN
        \<and> success_count bh = 0 \<and> half_open_calls bh = 0
        \<and> int (length cs) = half_open_max_calls bh
        \<and> (\<forall>c \<in> set cs. succeeding (snd (snd c)))"
  then have ne: "cs \<noteq> []" by auto
  obtain outs b' env' where run: "calls bh cs env = (outs, b', env')"
    by (cases "calls bh cs env") auto
  have fin: "(\<forall>out \<in> set outs. \<not> is_raised out) \<and> state b' = CLOSED \<and> failure_count b' = 0
      \<and> success_count b' = 0 \<and> half_open_calls b' = 0"
    using half_open_successes[of bh cs env outs b' env'] a run ne by simp
  show "list_all (\<lambda>out. \<not> is_raised out) (fst (calls bh cs env))"
    using fin run by (simp add: list_all_iff)
  show "state (fst (snd (calls bh cs env))) = CLOSED" using fin run by simp
  show "failure_count (fst (snd (calls bh cs env))) = 0" using fin run by simp
  show "success_count (fst (snd (calls bh cs env))) = 0" using fin run by simp
  show "half_open_calls (fst (snd (calls bh cs env))) = 0" using fin run by simp
  show "\<forall>k < length cs. state (fst (snd (calls bh (take k cs) env))) = HALF_OPEN"
  proof (intro allI impI)
    fix k assume k: "k < length cs"
    obtain outs1 b1 env1 where run1: "calls bh (take k cs) env = (outs1, b1, env1)"
      by (cases "calls bh (take k cs) env") auto
    have all: "\<forall>c \<in> set (take k cs). succeeding (snd (snd c))"
      using a by (meson in_set_takeD)
    have len: "half_open_calls bh + int (length (take k cs)) < half_open_max_calls bh"
      using a k by simp
    then have "half_open_calls bh + int (length (take k cs)) \<le> half_open_max_calls bh" by simp
    from half_open_successes[of bh "take k cs" env outs1 b1 env1, OF _ _ all this run1] a len
    have "state b1 = HALF_OPEN" by (simp split: if_splits)
    with run1 show "state (fst (snd (calls bh (take k cs) env))) = HALF_OPEN" by simp
  qed
qed

theorem circuit_breaker_cycle_witness:
  "failing raising_function
   \<and> calls (new_breaker 3 1 3) three_failures 0
       = ([Raised (Propagated ''Error''), Raised (Propagated ''Error''),
           Raised (Propagated ''Error'')], test_04_open_breaker, 3)
   \<and> state test_04_open_breaker = OPEN \<and> last_failure_time test_04_open_breaker = Some 3
   \<and> (3.5 :: real) - 3 < timeout test_04_open_breaker
   \<and> call test_04_open_breaker 3.5 3.5 returning_function 3
       = (Raised (Exception ''Circuit breaker is OPEN. Service unavailable.''),
          test_04_open_breaker, 3)
   \<and> 1 \<le> half_open_max_calls test_04_open_breaker
   \<and> (4.5 :: real) - 3 \<ge> timeout test_04_open_breaker
   \<and> fst (call test_04_open_breaker 4.5 4.5 returning_function 3) = Returned ''success''
   \<and> state (fst (snd (call test_04_open_breaker 4.5 4.5 returning_function 3))) = HALF_OPEN
   \<and> state (transition_to_half_open test_04_open_breaker) = HALF_OPEN
   \<and> success_count (transition_to_half_open test_04_open_breaker) = 0
   \<and> half_open_calls (transition_to_half_open test_04_open_breaker) = 0
   \<and> int (length three_successes) = half_open_max_calls (transition_to_half_open test_04_open_breaker)
   \<and> succeeding returning_function
   \<and> state (fst (snd (calls (transition_to_half_open test_04_open_breaker) three_successes 3)))
       = CLOSED
   \<and> failure_count (fst (snd (calls (transition_to_half_open test_04_open_breaker)
                                  three_successes 3))) = 0
   \<and> success_count (fst (snd (calls (transition_to_half_open test_04_open_breaker)
                                  three_successes 3))) = 0
   \<and> half_open_calls (fst (snd (calls (transition_to_half_open test_04_open_breaker)
                                  three_successes 3))) = 0"
  using circuit_breaker_cycle [where ?f1.0 = raising_function and ?f2.0 = raising_function
        and ?f3.0 = raising_function and tmo = 1 and homc = 3 and env = 3
        and ?s1.0 = 1 and ?t1.0 = 1 and ?s2.0 = 2 and ?t2.0 = 2 and ?s3.0 = 3 and ?t3.0 = 3
        and b = test_04_open_breaker and tf = 3 and now = "3.5" and ?now2.0 = "3.5"
        and func = returning_function
        and bo = test_04_open_breaker and tfo = 3 and later = "4.5" and ?later2.0 = "4.5"
        and bh = "transition_to_half_open test_04_open_breaker" and cs = three_successes]
  by (simp add: failing_def succeeding_def three_failures_def three_successes_def
        test_04_open_breaker_def raising_function_def returning_function_def breaker_defs)

text \<open>
  Claim C1 as stated fails for a breaker built with \<^verbatim>\<open>half_open_max_calls=0\<close>: after
  the three failures, the call made once the timeout has elapsed moves the breaker to
  \<open>HALF_OPEN\<close> and is then rejected by the call limit, \<open>0 \<ge> 0\<close>; the wrapped function
  has still been invoked three times only, and the breaker stays \<open>HALF_OPEN\<close>.
\<close>

theorem zero_half_open_calls_counterexample:
  "calls (new_breaker 3 1 0)
     [(1, 1, raising_function), (2, 2, raising_function), (3, 3, raising_function),
      (4.5, 4.5, returning_function)] 0
   = ([Raised (Propagated ''Error''), Raised (Propagated ''Error''),
       Raised (Propagated ''Error''),
       Raised (Exception ''Circuit breaker HALF_OPEN call limit reached'')],
      \<lparr> failure_threshold = 3, timeout = 1, half_open_max_calls = 0,
        state = HALF_OPEN, failure_count = 0, success_count = 0,
        last_failure_time = Some 3, half_open_calls = 0 \<rparr>,
      3)"
  by (simp add: raising_function_def returning_function_def breaker_defs)

text \<open>
  Claim C2, as amended.  The two rejections of \<^verbatim>\<open>CircuitBreaker.call\<close> are raised, as
  an \<^verbatim>\<open>Exception\<close> that carries a message, and the wrapped function is not invoked:
  on an \<open>OPEN\<close> breaker before the timeout has elapsed, and on a \<open>HALF_OPEN\<close> breaker
  at its call limit.  When no instance is healthy, \<^verbatim>\<open>get_next_instance\<close> returns
  \<^verbatim>\<open>None\<close> and \<^verbatim>\<open>forward_request\<close> returns its error dictionary with status 503,
  neither raising; every algorithm returns \<^verbatim>\<open>None\<close> on the empty list.
\<close>

theorem rejections_raised_no_instance_returned:
  "(state b = OPEN \<and> \<not> should_attempt_reset now b \<longrightarrow>
      call b now now2 func env
        = (Raised (Exception ''Circuit breaker is OPEN. Service unavailable.''), b, env))
   \<and> (state bh = HALF_OPEN \<and> half_open_calls bh \<ge> half_open_max_calls bh \<longrightarrow>
      call bh now now2 func env
        = (Raised (Exception ''Circuit breaker HALF_OPEN call limit reached''), bh, env))
   \<and> (get_healthy_instances lb h = [] \<longrightarrow>
      get_next_instance draw lb h = (None, lb)
    \<and> forward_request tmo tr draw t t2 (lb, h)
        = (Returned (Error_dict [(''error'', ''No healthy instances available''),
                                 (''status'', ''error'')], 503), lb, h))
   \<and> select_instance deref draw [] alg = (None, alg)"
  by (cases alg)
     (simp_all add: call_def forward_request_def get_next_instance_def select_instance_def
        RoundRobin_select_instance_def WeightedRoundRobin_select_instance_def
        LeastConnections_select_instance_def LeastResponseTime_select_instance_def
        Random_select_instance_def)

theorem rejections_raised_no_instance_returned_witness:
  "state test_04_open_breaker = OPEN \<and> \<not> should_attempt_reset 3.5 test_04_open_breaker
   \<and> call test_04_open_breaker 3.5 3.5 returning_function 3
        = (Raised (Exception ''Circuit breaker is OPEN. Service unavailable.''),
           test_04_open_breaker, 3)
   \<and> state half_open_breaker_at_limit = HALF_OPEN
   \<and> half_open_calls half_open_breaker_at_limit \<ge> half_open_max_calls half_open_breaker_at_limit
   \<and> call half_open_breaker_at_limit 3.5 3.5 returning_function 3
        = (Raised (Exception ''Circuit breaker HALF_OPEN call limit reached''),
           half_open_breaker_at_limit, 3)
   \<and> get_healthy_instances (new_LoadBalancer ''round_robin'') empty_heap = []
   \<and> fst (forward_request 5 (Timed_out :: unit transport) 0 1 1
            (new_LoadBalancer ''round_robin'', empty_heap))
        = Returned (Error_dict [(''error'', ''No healthy instances available''),
                                (''status'', ''error'')], 503)"
  using rejections_raised_no_instance_returned [where b = test_04_open_breaker and now = "3.5" and ?now2.0 = "3.5"
        and func = returning_function and env = 3 and bh = half_open_breaker_at_limit
        and lb = "new_LoadBalancer ''round_robin''" and h = empty_heap
        and tmo = 5 and tr = "Timed_out :: unit transport" and draw = 0 and t = 1 and ?t2.0 = 1
        and deref = "cells empty_heap" and alg = "LeastConnections :: ref algorithm"]
  by (simp add: test_04_open_breaker_def returning_function_def
        half_open_breaker_at_limit_def should_attempt_reset_def
        get_healthy_instances_def new_LoadBalancer_def)

text \<open>
  Claim C2 as stated fails: the call on the open breaker of the test, made before the
  timeout has elapsed, does not return a value but raises.
\<close>

theorem open_rejection_raised_counterexample:
  "fst (call test_04_open_breaker 3.5 3.5 returning_function 3)
     = Raised (Exception ''Circuit breaker is OPEN. Service unavailable.'')"
  by (simp add: test_04_open_breaker_def returning_function_def breaker_defs)

text \<open>
  Claim C8.  On a \<open>CLOSED\<close> breaker a call that succeeds changes \<open>success_count\<close> only:
  \<open>failure_count\<close> stays and the breaker stays \<open>CLOSED\<close>.  So over any calls made from
  a \<open>CLOSED\<close> breaker, as long as \<open>failure_count\<close> plus the number of failed calls is
  below \<open>failure_threshold\<close> the breaker is \<open>CLOSED\<close> with exactly that count, successes
  in between or not, and the failed call that brings the count to the threshold opens it.
  The count is 0 in a new breaker and after every transition to \<open>CLOSED\<close>.
\<close>

theorem closed_success_keeps_failure_count:
  "(state b = CLOSED \<and> func env = (Returned r, env1) \<longrightarrow>
      call b now now2 func env = (Returned r, b\<lparr> success_count := success_count b + 1 \<rparr>, env1)
    \<and> failure_count (fst (snd (call b now now2 func env))) = failure_count b
    \<and> state (fst (snd (call b now now2 func env))) = CLOSED)
   \<and> (state bc = CLOSED \<and> calls bc cs env0 = (outs, b', env')
       \<and> failure_count bc + int (length (filter is_failure outs)) < failure_threshold bc \<longrightarrow>
        state b' = CLOSED
      \<and> failure_count b' = failure_count bc + int (length (filter is_failure outs))
      \<and> (\<forall>x env''. func' env' = (Raised x, env'')
            \<and> failure_count b' + 1 \<ge> failure_threshold bc \<longrightarrow>
            state (fst (snd (call b' later later2 func' env'))) = OPEN))
   \<and> state (transition_to_closed b0) = CLOSED \<and> failure_count (transition_to_closed b0) = 0
   \<and> state (new_breaker ft tmo homc) = CLOSED \<and> failure_count (new_breaker ft tmo homc) = 0"
proof (intro conjI impI allI)
  show "state (transition_to_closed b0) = CLOSED" "failure_count (transition_to_closed b0) = 0"
    by (simp_all add: transition_to_closed_def)
  show "state (new_breaker ft tmo homc) = CLOSED" "failure_count (new_breaker ft tmo homc) = 0"
    by (simp_all add: new_breaker_def)
next
  assume a: "state b = CLOSED \<and> func env = (Returned r, env1)"
  then show 1: "call b now now2 func env
      = (Returned r, b\<lparr> success_count := success_count b + 1 \<rparr>, env1)"
    by (simp add: call_def on_success_def)
  from 1 show "failure_count (fst (snd (call b now now2 func env))) = failure_count b" by simp
  from 1 a show "state (fst (snd (call b now now2 func env))) = CLOSED" by simp
next
  assume a: "state bc = CLOSED \<and> calls bc cs env0 = (outs, b', env')
       \<and> failure_count bc + int (length (filter is_failure outs)) < failure_threshold bc"
  then have run: "state b' = CLOSED
       \<and> failure_count b' = failure_count bc + int (length (filter is_failure outs))
       \<and> failure_threshold b' = failure_threshold bc"
    using closed_calls[of bc cs env0 outs b' env'] by simp
  from run show "state b' = CLOSED" by simp
  from run show "failure_count b' = failure_count bc + int (length (filter is_failure outs))"
    by simp
  fix x env''
  assume "func' env' = (Raised x, env'') \<and> failure_count b' + 1 \<ge> failure_threshold bc"
  with run show "state (fst (snd (call b' later later2 func' env'))) = OPEN"
    by (simp add: call_def on_failure_def transition_to_open_def)
qed

theorem closed_success_keeps_failure_count_witness:
  "state (new_breaker 3 1 3) = CLOSED
   \<and> returning_function 0 = (Returned ''success'', 1)
   \<and> failure_count (fst (snd (call ((new_breaker 3 1 3)\<lparr> failure_count := 2 \<rparr>) 1 1
                                 returning_function 0))) = 2
   \<and> calls (new_breaker 3 1 3) interleaved_calls 0
       = ([Raised (Propagated ''Error''), Returned ''success'', Raised (Propagated ''Error''),
           Returned ''success''],
          (new_breaker 3 1 3)\<lparr> failure_count := 2, success_count := 2,
                                 last_failure_time := Some 3 \<rparr>, 4)
   \<and> raising_function 4 = (Raised ''Error'', 5)
   \<and> state (fst (snd (call ((new_breaker 3 1 3)\<lparr> failure_count := 2, success_count := 2,
                                 last_failure_time := Some 3 \<rparr>) 5 5 raising_function 4))) = OPEN"
  using closed_success_keeps_failure_count
        [where b = "(new_breaker 3 1 3)\<lparr> failure_count := 2 \<rparr>" and func = returning_function
        and env = 0 and r = "''success''" and ?env1.0 = 1 and now = 1 and ?now2.0 = 1
        and bc = "new_breaker 3 1 3" and cs = interleaved_calls and ?env0.0 = 0
        and outs = "[Raised (Propagated ''Error''), Returned ''success'',
                     Raised (Propagated ''Error''), Returned ''success'']"
        and b' = "(new_breaker 3 1 3)\<lparr> failure_count := 2, success_count := 2,
                                 last_failure_time := Some 3 \<rparr>"
        and env' = 4 and func' = raising_function and later = 5 and ?later2.0 = 5]
  by (simp add: raising_function_def returning_function_def interleaved_calls_def breaker_defs)

section \<open>Round robin\<close>

lemma RoundRobin_selections_eq:
  assumes "xs \<noteq> []"
  shows "RoundRobin_selections n xs alg
         = (map (\<lambda>k. Some (xs ! (k mod length xs)))
                [current_index alg ..< current_index alg + n],
            alg\<lparr> current_index := current_index alg + n \<rparr>)"
proof (induction n arbitrary: alg)
  case 0
  show ?case by simp
next
  case (Suc n)
  have "[current_index alg ..< current_index alg + Suc n]
        = current_index alg # [Suc (current_index alg) ..< Suc (current_index alg) + n]"
    by (simp add: upt_conv_Cons)
  with Suc assms show ?case
    by (simp add: RoundRobin_select_instance_def)
qed

lemma residue_step:
  assumes "i < L"
  shows "(Suc (m + L - 1 - i) mod L = 0) = (m mod L = i)"
proof -
  have L: "0 < L" using assms by simp
  have eq: "Suc (m + L - 1 - i) = m + (L - i)" using assms by simp
  have red: "(m + (L - i)) mod L = (m mod L + (L - i)) mod L"
    by (simp add: mod_add_left_eq)
  have r: "m mod L < L" using L by simp
  show ?thesis
  proof (cases "i \<le> m mod L")
    case True
    have "m mod L + (L - i) = (m mod L - i) + L" using True assms by simp
    then have "(m mod L + (L - i)) mod L = (m mod L - i) mod L" by simp
    also have "\<dots> = m mod L - i" using r by simp
    finally show ?thesis using True eq red by simp
  next
    case False
    then have "m mod L + (L - i) < L" using assms by simp
    then have "(m mod L + (L - i)) mod L = m mod L + (L - i)" by simp
    then show ?thesis using False eq red assms by simp
  qed
qed

lemma count_residues_below:
  assumes "i < L"
  shows "length (filter (\<lambda>k. k mod L = i) [0..<m]) = (m + L - 1 - i) div L"
proof (induction m)
  case 0
  from assms show ?case by simp
next
  case (Suc m)
  have eq: "Suc m + L - 1 - i = Suc (m + L - 1 - i)" using assms by simp
  show ?case
    unfolding eq div_Suc using Suc residue_step[OF assms, of m] by simp
qed

lemma count_residues_window:
  assumes "i < L"
  shows "length (filter (\<lambda>k. k mod L = i) [c..<c + n])
         = (c + L - 1 - i + n) div L - (c + L - 1 - i) div L"
proof -
  have "[0..<c + n] = [0..<c] @ [c..<c + n]" by (rule upt_add_eq_append) simp
  then have "length (filter (\<lambda>k. k mod L = i) [0..<c + n])
           = length (filter (\<lambda>k. k mod L = i) [0..<c])
             + length (filter (\<lambda>k. k mod L = i) [c..<c + n])"
    by simp
  moreover have "c + n + L - 1 - i = c + L - 1 - i + n" using assms by simp
  ultimately show ?thesis
    using count_residues_below[OF assms, of "c + n"] count_residues_below[OF assms, of c]
    by simp
qed

lemma ceiling_div:
  assumes "0 < (L::nat)"
  shows "(n + L - 1) div L = n div L + (if n mod L = 0 then 0 else 1)"
proof -
  have "n + L - 1 = n + (L - 1)" using assms by simp
  then have "(n + L - 1) div L = n div L + (L - 1) div L + (n mod L + (L - 1) mod L) div L"
    using div_add1_eq[of n "L - 1" L] by simp
  also have "(L - 1) div L = 0" using assms by simp
  also have "(L - 1) mod L = L - 1" using assms by simp
  finally have e: "(n + L - 1) div L = n div L + (n mod L + (L - 1)) div L" by simp
  show ?thesis
  proof (cases "n mod L = 0")
    case True
    with e assms show ?thesis by simp
  next
    case False
    have "n mod L < L" using assms by simp
    with False have "L * 1 \<le> n mod L + (L - 1)" "n mod L + (L - 1) < L * Suc 1" by simp_all
    then have "(n mod L + (L - 1)) div L = 1" by (rule div_nat_eqI)
    with e False show ?thesis by simp
  qed
qed

lemma window_floor_ceiling:
  assumes "i < L"
  shows "length (filter (\<lambda>k. k mod L = i) [c..<c + n]) = n div L
       \<or> length (filter (\<lambda>k. k mod L = i) [c..<c + n]) = (n + L - 1) div L"
proof -
  define a where "a = c + L - 1 - i"
  have L: "0 < L" using assms by simp
  have cnt: "length (filter (\<lambda>k. k mod L = i) [c..<c + n]) = (a + n) div L - a div L"
    using count_residues_window[OF assms, of c n] by (simp add: a_def)
  have split: "(a + n) div L = a div L + n div L + (a mod L + n mod L) div L"
    by (rule div_add1_eq)
  have "a mod L < L" and "n mod L < L" using L by (rule mod_less_divisor)+
  then have "a mod L + n mod L < 2 * L" by linarith
  then have "(a mod L + n mod L) div L < 2" by (rule less_mult_imp_div_less)
  then have d: "(a mod L + n mod L) div L = 0 \<or> (a mod L + n mod L) div L = 1"
    by (simp add: less_2_cases_iff)
  have zero: "n mod L = 0 \<Longrightarrow> (a mod L + n mod L) div L = 0" using L by simp
  show ?thesis
  proof (cases "n mod L = 0")
    case True
    with cnt split zero show ?thesis by simp
  next
    case False
    then have "(n + L - 1) div L = n div L + 1" using ceiling_div[OF L, of n] by simp
    with cnt split d show ?thesis by (elim disjE) simp_all
  qed
qed

lemma nth_concat_replicate:
  assumes "k < m * length ys"
  shows "concat (replicate m ys) ! k = ys ! (k mod length ys)"
  using assms
proof (induction m arbitrary: k)
  case 0
  then show ?case by simp
next
  case (Suc m)
  show ?case
  proof (cases "k < length ys")
    case True
    then show ?thesis by (simp add: nth_append)
  next
    case False
    then have "k - length ys < m * length ys" using Suc.prems by simp
    from Suc.IH[OF this] False show ?thesis
      by (simp add: nth_append le_mod_geq)
  qed
qed

lemma rotation_repeated:
  assumes "xs \<noteq> []"
  shows "map (\<lambda>k. xs ! (k mod length xs)) [c..<c + n]
         = take n (concat (replicate n (rotate (c mod length xs) xs)))"
proof (rule nth_equalityI)
  have L: "1 \<le> length xs" using assms by (cases xs) simp_all
  then have "n * 1 \<le> n * length xs" by (rule mult_le_mono2)
  then show "length (map (\<lambda>k. xs ! (k mod length xs)) [c..<c + n])
           = length (take n (concat (replicate n (rotate (c mod length xs) xs))))"
    by (simp add: length_concat sum_list_replicate)
next
  fix j assume "j < length (map (\<lambda>k. xs ! (k mod length xs)) [c..<c + n])"
  then have j: "j < n" by simp
  have L: "1 \<le> length xs" using assms by (cases xs) simp_all
  then have "n * 1 \<le> n * length xs" by (rule mult_le_mono2)
  with j have "j < n * length xs" by linarith
  then have jl: "j < n * length (rotate (c mod length xs) xs)" by simp
  have "0 < length xs" using assms by simp
  then have m: "j mod length xs < length xs" by (rule mod_less_divisor)
  have "take n (concat (replicate n (rotate (c mod length xs) xs))) ! j
        = rotate (c mod length xs) xs ! (j mod length xs)"
    using j nth_concat_replicate[OF jl] by simp
  also have "\<dots> = xs ! ((c mod length xs + j mod length xs) mod length xs)"
    using m by (simp add: nth_rotate)
  also have "\<dots> = xs ! ((c + j) mod length xs)" by (simp add: mod_add_eq)
  finally show "map (\<lambda>k. xs ! (k mod length xs)) [c..<c + n] ! j
        = take n (concat (replicate n (rotate (c mod length xs) xs))) ! j"
    using j by simp
qed

lemma count_selected:
  assumes "distinct xs" "i < length xs"
  shows "count_list (map (\<lambda>k. Some (xs ! (k mod length xs))) ks) (Some (xs ! i))
         = length (filter (\<lambda>k. k mod length xs = i) ks)"
proof -
  have "\<And>k. (xs ! (k mod length xs) = xs ! i) = (k mod length xs = i)"
  proof -
    fix k
    have "0 < length xs" using assms(2) by linarith
    then have "k mod length xs < length xs" by (rule mod_less_divisor)
    with assms show "(xs ! (k mod length xs) = xs ! i) = (k mod length xs = i)"
      by (simp add: nth_eq_iff_index_eq)
  qed
  then show ?thesis
    by (induction ks) simp_all
qed

text \<open>
  Claim C3.  For a non-empty list that stays the same, \<open>n\<close> selections in a row starting
  at cursor \<open>c\<close> return the elements at the positions \<open>c mod L\<close>, \<open>(c + 1) mod L\<close>, ...
  of the list of length \<open>L\<close>: the first \<open>n\<close> elements of the list rotated by \<open>c mod L\<close>
  and repeated.  Each position is selected \<open>n div L\<close> times or that rounded up, and so is
  each element when the elements of the list are distinct, as the objects of a pool are.
\<close>

theorem RoundRobin_fair:
  "xs \<noteq> [] \<Longrightarrow>
     fst (RoundRobin_selections n xs alg)
       = map (\<lambda>k. Some (xs ! (k mod length xs))) [current_index alg ..< current_index alg + n]
   \<and> fst (RoundRobin_selections n xs alg)
       = map Some (take n (concat (replicate n (rotate (current_index alg mod length xs) xs))))
   \<and> current_index (snd (RoundRobin_selections n xs alg)) = current_index alg + n
   \<and> (\<forall>i < length xs.
         length (filter (\<lambda>k. k mod length xs = i) [current_index alg ..< current_index alg + n])
           = n div length xs
       \<or> length (filter (\<lambda>k. k mod length xs = i) [current_index alg ..< current_index alg + n])
           = (n + length xs - 1) div length xs)
   \<and> (distinct xs \<longrightarrow>
        (\<forall>x \<in> set xs.
           count_list (fst (RoundRobin_selections n xs alg)) (Some x) = n div length xs
         \<or> count_list (fst (RoundRobin_selections n xs alg)) (Some x)
             = (n + length xs - 1) div length xs))"
proof -
  assume ne: "xs \<noteq> []"
  let ?c = "current_index alg"
  let ?ks = "[?c ..< ?c + n]"
  have sel: "fst (RoundRobin_selections n xs alg) = map (\<lambda>k. Some (xs ! (k mod length xs))) ?ks"
    by (simp add: RoundRobin_selections_eq[OF ne])
  have rot: "fst (RoundRobin_selections n xs alg)
       = map Some (take n (concat (replicate n (rotate (?c mod length xs) xs))))"
  proof -
    have "map Some (take n (concat (replicate n (rotate (?c mod length xs) xs))))
          = map Some (map (\<lambda>k. xs ! (k mod length xs)) ?ks)"
      by (simp only: rotation_repeated[OF ne])
    also have "\<dots> = map (\<lambda>k. Some (xs ! (k mod length xs))) ?ks" by simp
    finally show ?thesis using sel by simp
  qed
  have idx: "current_index (snd (RoundRobin_selections n xs alg)) = ?c + n"
    by (simp add: RoundRobin_selections_eq[OF ne])
  have pos: "\<forall>i < length xs.
         length (filter (\<lambda>k. k mod length xs = i) ?ks) = n div length xs
       \<or> length (filter (\<lambda>k. k mod length xs = i) ?ks) = (n + length xs - 1) div length xs"
    using window_floor_ceiling by blast
  have elt: "distinct xs \<longrightarrow>
        (\<forall>x \<in> set xs.
           count_list (fst (RoundRobin_selections n xs alg)) (Some x) = n div length xs
         \<or> count_list (fst (RoundRobin_selections n xs alg)) (Some x)
             = (n + length xs - 1) div length xs)"
  proof (intro impI ballI)
    fix x assume d: "distinct xs" and "x \<in> set xs"
    then obtain i where i: "i < length xs" "x = xs ! i" by (auto simp: in_set_conv_nth)
    have "count_list (fst (RoundRobin_selections n xs alg)) (Some x)
          = length (filter (\<lambda>k. k mod length xs = i) ?ks)"
      unfolding sel i(2) using d i(1) by (rule count_selected)
    with pos i(1) show "count_list (fst (RoundRobin_selections n xs alg)) (Some x) = n div length xs
         \<or> count_list (fst (RoundRobin_selections n xs alg)) (Some x)
             = (n + length xs - 1) div length xs"
      by simp
  qed
  from sel rot idx pos elt show ?thesis by blast
qed

theorem RoundRobin_fair_witness:
  "three_services \<noteq> [] \<and> distinct three_services
   \<and> fst (RoundRobin_selections 7 three_services new_RoundRobinAlgorithm)
       = [Some ''service-1'', Some ''service-2'', Some ''service-3'', Some ''service-1'',
          Some ''service-2'', Some ''service-3'', Some ''service-1'']
   \<and> count_list (fst (RoundRobin_selections 7 three_services new_RoundRobinAlgorithm))
        (Some ''service-1'') = 3
   \<and> count_list (fst (RoundRobin_selections 7 three_services new_RoundRobinAlgorithm))
        (Some ''service-2'') = 2
   \<and> (7::nat) div length three_services = 2
   \<and> (7 + length three_services - 1) div length three_services = 3"
proof -
  have ks: "[0..<7::nat] = [0, 1, 2, 3, 4, 5, 6]" by code_simp
  show ?thesis
    using RoundRobin_fair [of three_services 7 new_RoundRobinAlgorithm] ks
    by (simp add: three_services_def new_RoundRobinAlgorithm_def)
qed

section \<open>Weighted round robin\<close>

lemma WeightedRoundRobin_selections_stable:
  assumes "xs \<noteq> []" and "build_weighted_list w xs \<noteq> []"
    and "last_instances alg = Some xs \<longrightarrow> weighted_instances alg = build_weighted_list w xs"
  shows "fst (WeightedRoundRobin_selections n w xs alg)
         = map (\<lambda>k. Some (build_weighted_list w xs ! (k mod length (build_weighted_list w xs))))
               [current_index alg ..< current_index alg + n]"
  using assms(3)
proof (induction n arbitrary: alg)
  case 0
  show ?case by simp
next
  case (Suc n)
  let ?W = "build_weighted_list w xs"
  let ?c = "current_index alg"
  let ?alg' = "alg\<lparr> current_index := ?c + 1, weighted_instances := ?W, last_instances := Some xs \<rparr>"
  obtain x rest where xs: "xs = x # rest" using assms(1) by (cases xs) auto
  have step: "WeightedRoundRobin_select_instance w xs alg = (Some (?W ! (?c mod length ?W)), ?alg')"
    using Suc.prems assms(2) xs
    by (cases "last_instances alg = Some xs")
       (auto simp: WeightedRoundRobin_select_instance_def Let_def)
  have inv: "last_instances ?alg' = Some xs \<longrightarrow> weighted_instances ?alg' = ?W" by simp
  let ?f = "\<lambda>k. Some (?W ! (k mod length ?W))"
  have ks: "[?c ..< ?c + Suc n] = ?c # [Suc ?c ..< Suc ?c + n]" by (simp add: upt_conv_Cons)
  have rest: "fst (WeightedRoundRobin_selections n w xs ?alg') = map ?f [Suc ?c ..< Suc ?c + n]"
    using Suc.IH[OF inv] by simp
  have "fst (WeightedRoundRobin_selections (Suc n) w xs alg)
        = ?f ?c # fst (WeightedRoundRobin_selections n w xs ?alg')"
    using step by (simp split: prod.splits)
  also have "\<dots> = map ?f (?c # [Suc ?c ..< Suc ?c + n])" using rest by simp
  also have "\<dots> = map ?f [?c ..< ?c + Suc n]" by (simp only: ks)
  finally show ?case .
qed

text \<open>
  Claim C6.  A fresh \<^verbatim>\<open>WeightedRoundRobinAlgorithm\<close>, asked 12 times in a row for an
  instance of the list of two instances of weights 3 and 1, returns the first three times
  and then the second once, three times over: the first 9 times, the second 3 times.
\<close>

theorem weighted_three_to_one:
  "weight_of a = 3 \<Longrightarrow> weight_of b = 1 \<Longrightarrow>
     fst (WeightedRoundRobin_selections 12 weight_of [a, b] new_WeightedRoundRobinAlgorithm)
       = [Some a, Some a, Some a, Some b, Some a, Some a, Some a, Some b,
          Some a, Some a, Some a, Some b]
   \<and> count_list (fst (WeightedRoundRobin_selections 12 weight_of [a, b]
                         new_WeightedRoundRobinAlgorithm)) (Some a) = 9
   \<and> count_list (fst (WeightedRoundRobin_selections 12 weight_of [a, b]
                         new_WeightedRoundRobinAlgorithm)) (Some b) = 3"
proof -
  assume w: "weight_of a = 3" "weight_of b = 1"
  then have ne: "a \<noteq> b" by auto
  have W: "build_weighted_list weight_of [a, b] = [a, a, a, b]"
    using w by (simp add: build_weighted_list_def eval_nat_numeral)
  have ks: "[0..<12::nat] = [0, 1, 2, 3, 4, 5, 6, 7, 8, 9, 10, 11]" by code_simp
  have sel: "fst (WeightedRoundRobin_selections 12 weight_of [a, b] new_WeightedRoundRobinAlgorithm)
       = [Some a, Some a, Some a, Some b, Some a, Some a, Some a, Some b,
          Some a, Some a, Some a, Some b]"
    using WeightedRoundRobin_selections_stable
            [of "[a, b]" weight_of new_WeightedRoundRobinAlgorithm 12]
    by (simp add: W ks new_WeightedRoundRobinAlgorithm_def)
  show ?thesis unfolding sel using ne by simp
qed

theorem weighted_three_to_one_witness:
  "service_weight ''service-1'' = 3 \<and> service_weight ''service-2'' = 1
   \<and> fst (WeightedRoundRobin_selections 12 service_weight [''service-1'', ''service-2'']
             new_WeightedRoundRobinAlgorithm)
       = [Some ''service-1'', Some ''service-1'', Some ''service-1'', Some ''service-2'',
          Some ''service-1'', Some ''service-1'', Some ''service-1'', Some ''service-2'',
          Some ''service-1'', Some ''service-1'', Some ''service-1'', Some ''service-2'']
   \<and> count_list (fst (WeightedRoundRobin_selections 12 service_weight
                         [''service-1'', ''service-2''] new_WeightedRoundRobinAlgorithm))
        (Some ''service-1'') = 9
   \<and> count_list (fst (WeightedRoundRobin_selections 12 service_weight
                         [''service-1'', ''service-2''] new_WeightedRoundRobinAlgorithm))
        (Some ''service-2'') = 3"
  using weighted_three_to_one [of service_weight "''service-1''" "''service-2''"]
  by (simp add: service_weight_def)

section \<open>Active connections\<close>

lemma cells_modify:
  "cells (modify r f h) r' = (if r' = r then f (cells h r) else cells h r')"
  by (simp add: modify_def)

lemma connections_record_request:
  "active_connections (record_request success response_time now i) = active_connections i"
  by (simp add: record_request_def Let_def)

lemma connections_increment:
  "0 \<le> active_connections i \<Longrightarrow> 0 \<le> active_connections (increment_connections i)"
  by (simp add: increment_connections_def)

lemma connections_decrement: "0 \<le> active_connections (decrement_connections i)"
  by (simp add: decrement_connections_def)

lemma forward_request_connections:
  assumes "\<forall>r. 0 \<le> active_connections (cells h r)"
  shows "\<forall>r. 0 \<le> active_connections
                  (cells (snd (snd (forward_request tmo tr draw now now2 (lb, h)))) r)"
proof (cases "get_next_instance draw lb h")
  case (Pair sel lb')
  show ?thesis
  proof (cases sel)
    case None
    with Pair assms show ?thesis by (simp add: forward_request_def)
  next
    case (Some r0)
    show ?thesis
    proof (cases tr)
      case (Responded status_code body response_time)
      with Pair Some assms show ?thesis
        by (cases body)
           (auto simp: forward_request_def Let_def cells_modify connections_decrement
              connections_record_request connections_increment)
    next
      case Timed_out
      with Pair Some assms show ?thesis
        by (auto simp: forward_request_def Let_def cells_modify connections_decrement)
    next
      case (Request_failed e)
      with Pair Some assms show ?thesis
        by (auto simp: forward_request_def Let_def cells_modify connections_decrement)
    next
      case (Other_failure e)
      with Pair Some assms show ?thesis
        by (auto simp: forward_request_def Let_def cells_modify connections_increment)
    qed
  qed
qed

lemma apply_operation_connections:
  assumes "\<forall>r. 0 \<le> active_connections (cells (snd st) r)"
  shows "\<forall>r. 0 \<le> active_connections (cells (snd (apply_operation op st)) r)"
proof (cases st)
  case (Pair lb h)
  with assms have h: "\<forall>r. 0 \<le> active_connections (cells h r)" by simp
  show ?thesis
  proof (cases op)
    case (Dispatch tmo tr draw now now2)
    with Pair forward_request_connections[OF h] show ?thesis by simp
  qed (use Pair h in \<open>auto simp: cells_modify connections_increment connections_decrement
        add_instance_def alloc_def new_instance_def remove_instance_def
        mark_healthy_def mark_unhealthy_def\<close>)
qed

text \<open>
  Claim C5.  When no object has a negative \<^verbatim>\<open>active_connections\<close>, as is the case
  for every newly created instance, none has after any sequence of increments, decrements,
  dispatches with any outcome of the request, additions, removals and health marks.
\<close>

theorem connections_never_negative:
  "\<forall>r. 0 \<le> active_connections (cells h r) \<Longrightarrow>
     \<forall>r. 0 \<le> active_connections (cells (snd (apply_operations ops (lb, h))) r)"
proof -
  have "\<And>st. \<forall>r. 0 \<le> active_connections (cells (snd st) r) \<Longrightarrow>
     \<forall>r. 0 \<le> active_connections (cells (snd (apply_operations ops st)) r)"
  proof (induction ops)
    case Nil
    then show ?case by simp
  next
    case (Cons op ops)
    from Cons.IH[OF apply_operation_connections[OF Cons.prems]] show ?case by simp
  qed
  from this[of "(lb, h)"] show "\<forall>r. 0 \<le> active_connections (cells h r) \<Longrightarrow>
     \<forall>r. 0 \<le> active_connections (cells (snd (apply_operations ops (lb, h))) r)" by simp
qed

lemma round_robin_by_name:
  "(get_algorithm ''round_robin'' :: ref algorithm) = RoundRobin new_RoundRobinAlgorithm"
  by (simp add: get_algorithm_def lower_char_def)

theorem connections_never_negative_witness:
  "(\<forall>r. 0 \<le> active_connections (cells empty_heap r))
   \<and> active_connections
        (cells (snd (apply_operations connection_operations
                      (new_LoadBalancer ''round_robin'', empty_heap))) 0) = 0"
  using connections_never_negative
          [of empty_heap connection_operations "new_LoadBalancer ''round_robin''"]
  by (simp add: connection_operations_def new_LoadBalancer_def empty_heap_def round_robin_by_name
        new_instance_def add_instance_def alloc_def modify_def mark_healthy_def
        forward_request_def get_next_instance_def get_healthy_instances_def is_healthy_def
        select_instance_def RoundRobin_select_instance_def new_RoundRobinAlgorithm_def
        increment_connections_def decrement_connections_def record_request_def Let_def)

section \<open>Failover\<close>

lemma perform_failover_fields:
  "primary_instances (perform_failover p b now fm) = primary_instances fm"
  "backup_instances (perform_failover p b now fm) = backup_instances fm"
  "failover_history (perform_failover p b now fm) = failover_history fm @
     [\<lparr> ev_timestamp = now, ev_type = ''failover'', ev_from = name p,
        ev_to = name b, ev_reason = ''primary_unhealthy'' \<rparr>]"
  by (simp_all add: perform_failover_def)

lemma failover_entry_triple:
  "failover_entry h now (primary_name, primary, backup)
   = \<lparr> ev_timestamp = now, ev_type = ''failover'', ev_from = name (cells h primary),
       ev_to = name (cells h backup), ev_reason = ''primary_unhealthy'' \<rparr>"
  by (simp add: failover_entry_def)

lemma failover_loop_eq:
  "failover_loop ps h clock fm
   = fm\<lparr> failover_history := failover_history fm @
           map (\<lambda>(n, e). failover_entry h (clock n) e)
               (enumerate (length (failover_history fm))
                  (due_entries h (backup_instances fm) ps)) \<rparr>"
proof (induction ps arbitrary: fm)
  case Nil
  show ?case by (simp add: due_entries_def)
next
  case (Cons entry ps)
  obtain primary_name primary where entry: "entry = (primary_name, primary)" by (cases entry) auto
  show ?case
  proof (cases "map_of (backup_instances fm) primary_name")
    case None
    then show ?thesis using Cons.IH[of fm] entry by (simp add: due_entries_def)
  next
    case (Some backup)
    show ?thesis
    proof (cases "\<not> is_healthy (cells h primary) \<and> is_healthy (cells h backup)")
      case False
      then show ?thesis using Cons.IH[of fm] entry Some by (auto simp: due_entries_def)
    next
      case True
      let ?fm1 = "perform_failover (cells h primary) (cells h backup)
                    (clock (length (failover_history fm))) fm"
      have due: "due_entries h (backup_instances fm) (entry # ps)
                 = (primary_name, primary, backup) # due_entries h (backup_instances fm) ps"
        using True Some entry by (simp add: due_entries_def)
      have loop: "failover_loop (entry # ps) h clock fm = failover_loop ps h clock ?fm1"
        using True Some entry by simp
      show ?thesis
        unfolding loop due Cons.IH[of ?fm1]
        by (simp add: perform_failover_def failover_entry_triple)
    qed
  qed
qed

lemma due_entries_other_key:
  "pn \<notin> fst ` set ps \<Longrightarrow> filter (\<lambda>e. fst e = pn) (due_entries h bs ps) = []"
  by (induction ps) (auto simp: due_entries_def split: option.splits)

lemma due_entries_key:
  assumes "distinct (map fst ps)" "(pn, p) \<in> set ps"
  shows "filter (\<lambda>e. fst e = pn) (due_entries h bs ps)
         = (case map_of bs pn of
              None \<Rightarrow> []
            | Some b \<Rightarrow> if \<not> is_healthy (cells h p) \<and> is_healthy (cells h b)
                        then [(pn, p, b)] else [])"
  using assms
proof (induction ps)
  case Nil
  then show ?case by simp
next
  case (Cons entry ps)
  obtain k r where entry: "entry = (k, r)" by (cases entry) auto
  have cons: "due_entries h bs (entry # ps)
              = (case map_of bs k of
                   None \<Rightarrow> []
                 | Some b \<Rightarrow> if \<not> is_healthy (cells h r) \<and> is_healthy (cells h b)
                             then [(k, r, b)] else []) @ due_entries h bs ps"
    using entry by (simp add: due_entries_def)
  show ?case
  proof (cases "k = pn")
    case True
    with Cons.prems entry have "pn \<notin> fst ` set ps" and "r = p"
      by (auto simp: rev_image_eqI)
    with due_entries_other_key[of pn ps h bs] True show ?thesis
      unfolding cons by (auto split: option.splits)
  next
    case False
    with Cons.prems entry have "distinct (map fst ps)" "(pn, p) \<in> set ps" by auto
    from Cons.IH[OF this] False show ?thesis
      unfolding cons by (auto split: option.splits)
  qed
qed

lemma check_and_failover_eq:
  "check_and_failover h clock fm
   = fm\<lparr> failover_history := failover_history fm @
           map (\<lambda>(n, e). failover_entry h (clock n) e)
               (enumerate (length (failover_history fm)) (failover_due h fm)) \<rparr>"
  by (simp add: check_and_failover_def failover_due_def failover_loop_eq)

lemma repeat_check_and_failover_length:
  "length (failover_history (repeat_check_and_failover n h clock fm))
   = length (failover_history fm) + n * length (failover_due h fm)"
proof (induction n arbitrary: fm)
  case 0
  show ?case by simp
next
  case (Suc n)
  have due: "failover_due h (check_and_failover h clock fm) = failover_due h fm"
    by (simp add: check_and_failover_eq failover_due_def)
  have len: "length (failover_history (check_and_failover h clock fm))
             = length (failover_history fm) + length (failover_due h fm)"
    by (simp add: check_and_failover_eq)
  show ?case using Suc[of "check_and_failover h clock fm"] by (simp add: due len)
qed

text \<open>
  Claim C4, as amended.  One call of \<^verbatim>\<open>check_and_failover\<close> appends to the log one
  failover entry for each registered primary that is not healthy and has a registered
  backup that is healthy, in dictionary order, and nothing else; the dictionaries stay as
  they were.  Such a primary has exactly one entry among those due.  Every call does so:
  \<open>n\<close> calls with the health unchanged append \<open>n\<close> entries for each such primary.
\<close>

theorem one_failover_event_per_call:
  "failover_history (check_and_failover h clock fm)
     = failover_history fm @
         map (\<lambda>(n, e). failover_entry h (clock n) e)
             (enumerate (length (failover_history fm)) (failover_due h fm))
   \<and> primary_instances (check_and_failover h clock fm) = primary_instances fm
   \<and> backup_instances (check_and_failover h clock fm) = backup_instances fm
   \<and> (distinct (map fst (primary_instances fm)) \<and> (pn, p) \<in> set (primary_instances fm)
        \<and> map_of (backup_instances fm) pn = Some b
        \<and> \<not> is_healthy (cells h p) \<and> is_healthy (cells h b) \<longrightarrow>
        filter (\<lambda>e. fst e = pn) (failover_due h fm) = [(pn, p, b)])
   \<and> length (failover_history (repeat_check_and_failover n h clock fm))
       = length (failover_history fm) + n * length (failover_due h fm)"
proof (intro conjI impI)
  show "failover_history (check_and_failover h clock fm)
     = failover_history fm @
         map (\<lambda>(n, e). failover_entry h (clock n) e)
             (enumerate (length (failover_history fm)) (failover_due h fm))"
    by (simp add: check_and_failover_eq)
  show "primary_instances (check_and_failover h clock fm) = primary_instances fm"
    by (simp add: check_and_failover_eq)
  show "backup_instances (check_and_failover h clock fm) = backup_instances fm"
    by (simp add: check_and_failover_eq)
  show "length (failover_history (repeat_check_and_failover n h clock fm))
       = length (failover_history fm) + n * length (failover_due h fm)"
    by (rule repeat_check_and_failover_length)
next
  assume a: "distinct (map fst (primary_instances fm)) \<and> (pn, p) \<in> set (primary_instances fm)
        \<and> map_of (backup_instances fm) pn = Some b
        \<and> \<not> is_healthy (cells h p) \<and> is_healthy (cells h b)"
  then show "filter (\<lambda>e. fst e = pn) (failover_due h fm) = [(pn, p, b)]"
    using due_entries_key[of "primary_instances fm" pn p h "backup_instances fm"]
    by (simp add: failover_due_def)
qed

lemma test_05_manager_eq:
  "test_05_manager = \<lparr> enable_failback = True, primary_instances = [(''primary'', 0)],
      backup_instances = [(''primary'', 1)], failover_history = [] \<rparr>"
  by (simp add: test_05_manager_def test_05_pool_def set_primary_def set_backup_def
        get_instance_by_name_def add_instance_def alloc_def new_LoadBalancer_def
        new_FailoverManager_def new_instance_def empty_heap_def)

lemma test_05_heap_cells:
  "name (cells test_05_heap 0) = ''primary''" "name (cells test_05_heap (Suc 0)) = ''backup''"
  "health_status (cells test_05_heap 0) = UNHEALTHY"
  "health_status (cells test_05_heap (Suc 0)) = HEALTHY"
  by (simp_all add: test_05_heap_def test_05_pool_def modify_def add_instance_def alloc_def
        new_instance_def empty_heap_def mark_healthy_def mark_unhealthy_def)

theorem one_failover_event_per_call_witness:
  "distinct (map fst (primary_instances test_05_manager))
   \<and> (''primary'', 0) \<in> set (primary_instances test_05_manager)
   \<and> map_of (backup_instances test_05_manager) ''primary'' = Some 1
   \<and> \<not> is_healthy (cells test_05_heap 0) \<and> is_healthy (cells test_05_heap 1)
   \<and> failover_due test_05_heap test_05_manager = [(''primary'', 0, 1)]
   \<and> failover_history (check_and_failover test_05_heap test_clock test_05_manager)
       = [\<lparr> ev_timestamp = 10, ev_type = ''failover'', ev_from = ''primary'',
            ev_to = ''backup'', ev_reason = ''primary_unhealthy'' \<rparr>]
   \<and> length (failover_history
               (repeat_check_and_failover 3 test_05_heap test_clock test_05_manager)) = 3"
  using one_failover_event_per_call
          [of test_05_heap test_clock test_05_manager "''primary''" 0 1 3]
  by (simp add: test_05_manager_eq test_05_heap_cells is_healthy_def failover_due_def
        due_entries_def failover_entry_triple test_clock_def enumerate_eq_zip)

text \<open>
  Claim C4 as stated fails in its second half: in the scenario of
  \<^verbatim>\<open>test_05_failover_mechanism\<close>, two calls of \<^verbatim>\<open>check_and_failover\<close> with the
  health unchanged leave two failover entries for the one primary.
\<close>

theorem repeated_check_duplicates_counterexample:
  "failover_history (repeat_check_and_failover 2 test_05_heap test_clock test_05_manager)
     = [\<lparr> ev_timestamp = 10, ev_type = ''failover'', ev_from = ''primary'',
          ev_to = ''backup'', ev_reason = ''primary_unhealthy'' \<rparr>,
        \<lparr> ev_timestamp = 11, ev_type = ''failover'', ev_from = ''primary'',
          ev_to = ''backup'', ev_reason = ''primary_unhealthy'' \<rparr>]"
  by (simp add: eval_nat_numeral check_and_failover_def test_05_manager_eq test_05_heap_cells
        is_healthy_def perform_failover_def test_clock_def)

end
